theory Spec2Isabelle
  imports Main "HOL-Library.Word" "HOL-Library.Multiset"
begin

unbundle bit_operations_syntax

section \<open>thinc/model.pyx: the linear model, its scorer and its binary codec\<close>

text \<open>
  The embedding follows \<^verbatim>\<open>src/thinc/model.pyx\<close>. The Cython code works on raw C
  memory; the model makes each C object a value and each failure a result:
  \<^item> a \<^verbatim>\<open>SparseArrayC*\<close> is the list of the entries of its allocation, a
    \<^verbatim>\<open>weight_t*\<close> score buffer the list of its elements;
  \<^item> a failed \<^verbatim>\<open>assert\<close> is \<open>Inl AssertionError\<close>, a failed conversion of a Python
    integer is \<open>Inl OverflowError\<close>;
  \<^item> an access outside an allocation, a sum of C ints above \<open>2^31 - 1\<close>,
    \<^verbatim>\<open>fclose\<close> of a null pointer and the use of a variable that was never assigned
    are undefined in C;
    the model returns \<open>Inl UndefinedBehaviour\<close> there, so that a theorem about a result
    \<open>Inr r\<close> speaks only of runs on which the C program has a defined meaning.

  The declarations of \<^verbatim>\<open>feat_t\<close>, \<^verbatim>\<open>class_t\<close>, \<^verbatim>\<open>weight_t\<close>,
  \<^verbatim>\<open>FeatureC\<close> and \<^verbatim>\<open>SparseArrayC\<close> are cimported from files that are not under
  \<^verbatim>\<open>src/\<close>. The integer types are taken as thinc declares them: \<^verbatim>\<open>feat_t\<close> is
  \<^verbatim>\<open>uint64_t\<close>, \<^verbatim>\<open>class_t\<close> and the key of a \<^verbatim>\<open>SparseArrayC\<close> are
  \<^verbatim>\<open>int32_t\<close> (the source compares the key with 0 and stores -2 in it).
  The scorer is generic in \<^verbatim>\<open>weight_t\<close>: its multiplication and addition are the
  parameter \<open>A\<close>. The codec copies a weight as the four bytes of a C \<^verbatim>\<open>float\<close>.
\<close>

type_synonym byte = "8 word"
type_synonym feat_t = "64 word"
type_synonym class_t = "32 word"
type_synonym int32_t = "32 word"
type_synonym weight_t = "32 word"

datatype error = AssertionError | OverflowError | UndefinedBehaviour

record 'w FeatureC =
  key :: feat_t
  val :: 'w

record 'w SparseArrayC =
  key :: int32_t
  val :: 'w

text \<open>
  The arithmetic of \<^verbatim>\<open>weight_t\<close>: \<^verbatim>\<open>*\<close>, \<^verbatim>\<open>+\<close>, \<^verbatim>\<open>-\<close> and the constant
  \<^verbatim>\<open>1.0\<close>.
\<close>

record 'w arith =
  mul :: "'w \<Rightarrow> 'w \<Rightarrow> 'w"
  add :: "'w \<Rightarrow> 'w \<Rightarrow> 'w"
  sub :: "'w \<Rightarrow> 'w \<Rightarrow> 'w"
  one :: 'w

subsection \<open>IEEE 754 binary32, the arithmetic of a C float\<close>

text \<open>
  Modelled from the spec: \<^verbatim>\<open>weight_t\<close> is declared in thinc/typedefs.pxd, which is not
  under \<^verbatim>\<open>src/\<close>; the spec calls a weight "floating point", and thinc declares it as
  \<^verbatim>\<open>float\<close>. A value is its 32-bit pattern: sign (bit 31), biased exponent (bits
  30..23), fraction (bits 22..0). \<open>f32_round s m e\<close> is the float nearest to
  \<open>(-1)^s * m * 2^e\<close>, ties to the even significand, with gradual underflow and overflow
  to infinity: the default rounding of C. Every NaN result is the one quiet NaN
  \<open>f32_nan\<close> (which NaN the hardware returns is not fixed by the standard).
\<close>

datatype fp = NaN | Infinity bool | Finite bool nat int

definition f32_decode :: "weight_t \<Rightarrow> fp" where
  "f32_decode w =
     (let s = bit w 31; ex = unat (take_bit 8 (drop_bit 23 w)); fr = unat (take_bit 23 w)
      in if ex = 255 then (if fr = 0 then Infinity s else NaN)
         else if ex = 0 then Finite s fr (- 149)
         else Finite s (2 ^ 23 + fr) (int ex - 150))"

definition f32_pack :: "bool \<Rightarrow> nat \<Rightarrow> nat \<Rightarrow> weight_t" where
  "f32_pack s ex fr = (if s then 2 ^ 31 else 0) + push_bit 23 (of_nat ex) + of_nat fr"

fun bitlen :: "nat \<Rightarrow> nat" where
  "bitlen n = (if n = 0 then 0 else Suc (bitlen (n div 2)))"

declare bitlen.simps [simp del]

definition round_half_even :: "nat \<Rightarrow> nat \<Rightarrow> nat" where
  "round_half_even m d =
     (let q = m div d; r = m mod d
      in if d < 2 * r \<or> (2 * r = d \<and> odd q) then q + 1 else q)"

definition f32_round :: "bool \<Rightarrow> nat \<Rightarrow> int \<Rightarrow> weight_t" where
  "f32_round s m e =
     (let q = max (e + int (bitlen m) - 24) (- 149);
          m1 = (if q \<le> e then m * 2 ^ nat (e - q) else round_half_even m (2 ^ nat (q - e)));
          q2 = (if m1 = 2 ^ 24 then q + 1 else q);
          m2 = (if m1 = 2 ^ 24 then 2 ^ 23 else m1)
      in if m2 < 2 ^ 23 then f32_pack s 0 m2
         else if 105 \<le> q2 then f32_pack s 255 0
         else f32_pack s (nat (q2 + 150)) (m2 - 2 ^ 23))"

definition f32_nan :: weight_t where
  "f32_nan = f32_pack False 255 (2 ^ 22)"

definition f32_mul :: "weight_t \<Rightarrow> weight_t \<Rightarrow> weight_t" where
  "f32_mul a b =
     (case (f32_decode a, f32_decode b) of
        (Finite s m e, Finite t n f) \<Rightarrow> f32_round (s \<noteq> t) (m * n) (e + f)
      | (Finite s m e, Infinity t) \<Rightarrow> if m = 0 then f32_nan else f32_pack (s \<noteq> t) 255 0
      | (Infinity s, Finite t n f) \<Rightarrow> if n = 0 then f32_nan else f32_pack (s \<noteq> t) 255 0
      | (Infinity s, Infinity t) \<Rightarrow> f32_pack (s \<noteq> t) 255 0
      | _ \<Rightarrow> f32_nan)"

definition f32_add :: "weight_t \<Rightarrow> weight_t \<Rightarrow> weight_t" where
  "f32_add a b =
     (case (f32_decode a, f32_decode b) of
        (Finite s m e, Finite t n f) \<Rightarrow>
          (let g = min e f;
               x = (if s then - 1 else 1) * int m * 2 ^ nat (e - g);
               y = (if t then - 1 else 1) * int n * 2 ^ nat (f - g);
               z = x + y
           in if z = 0 then f32_pack (s \<and> t) 0 0 else f32_round (z < 0) (nat \<bar>z\<bar>) g)
      | (Finite s m e, Infinity t) \<Rightarrow> f32_pack t 255 0
      | (Infinity s, Finite t n f) \<Rightarrow> f32_pack s 255 0
      | (Infinity s, Infinity t) \<Rightarrow> if s = t then f32_pack s 255 0 else f32_nan
      | _ \<Rightarrow> f32_nan)"

definition f32_neg :: "weight_t \<Rightarrow> weight_t" where
  "f32_neg a = a XOR 2 ^ 31"

definition f32_sub :: "weight_t \<Rightarrow> weight_t \<Rightarrow> weight_t" where
  "f32_sub a b = f32_add a (f32_neg b)"

definition ieee32 :: "weight_t arith" where
  "ieee32 = \<lparr>mul = f32_mul, add = f32_add, sub = f32_sub, one = 0x3F800000\<rparr>"

text \<open>
  The notions below are used in the proofs about the rounding; none of them is in the
  source. \<open>f32_quantum m e\<close> is the exponent of the last place of the float nearest to
  \<open>m * 2^e\<close>, \<open>f32_scaled m e q\<close> is \<open>m * 2^e\<close> in units of \<open>2^q\<close>, rounded, and
  \<open>f32_finish s q m1\<close> packs the significand \<open>m1\<close> at the exponent \<open>q\<close>: \<open>f32_round\<close>
  is the three of them in a row.
\<close>

definition f32_quantum :: "nat \<Rightarrow> int \<Rightarrow> int" where
  "f32_quantum m e = max (e + int (bitlen m) - 24) (- 149)"

definition f32_scaled :: "nat \<Rightarrow> int \<Rightarrow> int \<Rightarrow> nat" where
  "f32_scaled m e q =
     (if q \<le> e then m * 2 ^ nat (e - q) else round_half_even m (2 ^ nat (q - e)))"

definition f32_finish :: "bool \<Rightarrow> int \<Rightarrow> nat \<Rightarrow> weight_t" where
  "f32_finish s q m1 =
     (let q2 = (if m1 = 2 ^ 24 then q + 1 else q);
          m2 = (if m1 = 2 ^ 24 then 2 ^ 23 else m1)
      in if m2 < 2 ^ 23 then f32_pack s 0 m2
         else if 105 \<le> q2 then f32_pack s 255 0
         else f32_pack s (nat (q2 + 150)) (m2 - 2 ^ 23))"

text \<open>
  \<open>f32_no_underflow m e\<close>: the value \<open>m * 2^e\<close> is zero, a multiple of \<open>2^-149\<close> (the
  smallest positive float), or at least \<open>2^-126\<close> (the smallest normal float). Rounding
  such a value and doubling the result is rounding its double.
\<close>

definition f32_no_underflow :: "nat \<Rightarrow> int \<Rightarrow> bool" where
  "f32_no_underflow m e \<longleftrightarrow> m = 0 \<or> - 149 \<le> e \<or> - 149 \<le> e + int (bitlen m) - 24"

text \<open>
  The sum of two finite floats, as \<open>f32_add\<close> computes it: \<open>f32_aligned g s m e t n f\<close>
  is \<open>(-1)^s * m * 2^e + (-1)^t * n * 2^f\<close> in units of \<open>2^g\<close>, for \<open>g\<close> at most \<open>e\<close> and
  \<open>f\<close>, and \<open>f32_signed_round s0 z g\<close> is the float nearest to \<open>z * 2^g\<close>, the zero of
  sign \<open>s0\<close> when \<open>z\<close> is 0.
\<close>

definition f32_aligned :: "int \<Rightarrow> bool \<Rightarrow> nat \<Rightarrow> int \<Rightarrow> bool \<Rightarrow> nat \<Rightarrow> int \<Rightarrow> int" where
  "f32_aligned g s m e t n f =
     (if s then - 1 else 1) * int m * 2 ^ nat (e - g)
       + (if t then - 1 else 1) * int n * 2 ^ nat (f - g)"

definition f32_signed_round :: "bool \<Rightarrow> int \<Rightarrow> int \<Rightarrow> weight_t" where
  "f32_signed_round s0 z g =
     (if z = 0 then f32_pack s0 0 0 else f32_round (z < 0) (nat \<bar>z\<bar>) g)"

text \<open>
  \<open>f32_doubles x\<close>: \<open>x\<close> is finite and so is its double (\<open>x\<close> is below \<open>2^127\<close> in
  magnitude). \<open>f32_product_safe w v\<close>: both are finite and their exact product does not
  underflow.
\<close>

definition f32_doubles :: "weight_t \<Rightarrow> bool" where
  "f32_doubles x =
     (case f32_decode x of Finite s m e \<Rightarrow> \<not> (8388608 \<le> m \<and> e = 104) | _ \<Rightarrow> False)"

definition f32_product_safe :: "weight_t \<Rightarrow> weight_t \<Rightarrow> bool" where
  "f32_product_safe w v =
     (case (f32_decode w, f32_decode v) of
        (Finite s m e, Finite t n f) \<Rightarrow> f32_no_underflow (m * n) (e + f)
      | _ \<Rightarrow> False)"

subsection \<open>The weights table and LinearModel.set_scores\<close>

text \<open>
  \<^verbatim>\<open>self.weights\<close> is a \<^verbatim>\<open>PreshMap\<close> from a feature key to an address: 0 (here
  \<open>None\<close>) or a pointer to a \<^verbatim>\<open>SparseArrayC\<close> array. The table is the list of its
  items in the order \<^verbatim>\<open>items()\<close> yields them; \<^verbatim>\<open>map_get\<close> returns NULL (\<open>None\<close>)
  for a key that is not in the table and for a key that holds the address 0.
\<close>

type_synonym 'w weights_table = "(feat_t \<times> 'w SparseArrayC list option) list"

definition map_get :: "'w weights_table \<Rightarrow> feat_t \<Rightarrow> 'w SparseArrayC list option" where
  "map_get weights_table k =
     (case map_of weights_table k of
        None \<Rightarrow> None
      | Some None \<Rightarrow> None
      | Some (Some class_weights) \<Rightarrow> Some class_weights)"

text \<open>
  The inner loop of \<^verbatim>\<open>set_scores\<close>, from index \<open>j\<close> of \<^verbatim>\<open>class_weights\<close> on (the
  list is the rest of the array):
  \<^verbatim>\<open>while class_weights[j].key >= 0:
      scores[class_weights[j].key] += class_weights[j].val * feat.val
      j += 1\<close>
\<close>

fun add_class_weights ::
  "'w arith \<Rightarrow> 'w \<Rightarrow> nat \<Rightarrow> 'w SparseArrayC list \<Rightarrow> 'w list \<Rightarrow> error + 'w list" where
  "add_class_weights A v j [] scores = Inl UndefinedBehaviour"
| "add_class_weights A v j (e # es) scores =
     (if 0 \<le> sint (key e) then
        (if nat (sint (key e)) < length scores \<and> j < 2 ^ 31 - 1 then
           add_class_weights A v (j + 1) es
             (scores[nat (sint (key e)) := add A (scores ! nat (sint (key e))) (mul A (val e) v)])
         else Inl UndefinedBehaviour)
      else Inr scores)"

text \<open>The outer loop, over the features still to score.\<close>

fun score_feats ::
  "'w arith \<Rightarrow> 'w weights_table \<Rightarrow> 'w FeatureC list \<Rightarrow> 'w list \<Rightarrow> error + 'w list" where
  "score_feats A weights_table [] scores = Inr scores"
| "score_feats A weights_table (feat # feats) scores =
     (case map_get weights_table (FeatureC.key feat) of
        None \<Rightarrow> score_feats A weights_table feats scores
      | Some class_weights \<Rightarrow>
          (case add_class_weights A (FeatureC.val feat) 0 class_weights scores of
             Inl err \<Rightarrow> Inl err
           | Inr scores' \<Rightarrow> score_feats A weights_table feats scores'))"

text \<open>
  \<^verbatim>\<open>set_scores(self, scores, feats, nr_feat)\<close>: \<^verbatim>\<open>for i in range(nr_feat)\<close> reads
  \<^verbatim>\<open>feats[0]\<close> to \<^verbatim>\<open>feats[nr_feat - 1]\<close>; a count beyond the array is an access
  outside it. The result is the score buffer after the call.
\<close>

definition set_scores ::
  "'w arith \<Rightarrow> 'w weights_table \<Rightarrow> 'w list \<Rightarrow> 'w FeatureC list \<Rightarrow> int \<Rightarrow> error + 'w list" where
  "set_scores A weights_table scores feats nr_feat =
     (if int (length feats) < nr_feat then Inl UndefinedBehaviour
      else score_feats A weights_table (take (nat nr_feat) feats) scores)"

text \<open>The entries of a vector before its first negative key: what the loops above visit.\<close>

definition live :: "'w SparseArrayC list \<Rightarrow> 'w SparseArrayC list" where
  "live class_weights = takeWhile (\<lambda>e. 0 \<le> sint (key e)) class_weights"

definition class_ids :: "'w SparseArrayC list \<Rightarrow> nat set" where
  "class_ids class_weights = (\<lambda>e. nat (sint (key e))) ` set (live class_weights)"

subsection \<open>Files and C streams\<close>

text \<open>
  A value of \<open>n\<close> bytes is written and read as its object representation, least
  significant byte first (the format is "native byte order"; thinc runs on little-endian
  machines). \<open>word_bytes w\<close> are the \<^verbatim>\<open>sizeof\<close> bytes of \<open>w\<close>.
\<close>

fun le_bytes :: "nat \<Rightarrow> nat \<Rightarrow> byte list" where
  "le_bytes 0 x = []"
| "le_bytes (Suc n) x = word_of_nat (x mod 256) # le_bytes n (x div 256)"

fun le_nat :: "byte list \<Rightarrow> nat" where
  "le_nat [] = 0"
| "le_nat (b # bs) = unat b + 256 * le_nat bs"

definition word_bytes :: "'a::len word \<Rightarrow> byte list" where
  "word_bytes w = le_bytes (LENGTH('a) div 8) (unat w)"

definition bytes_word :: "byte list \<Rightarrow> 'a::len word" where
  "bytes_word bs = word_of_nat (le_nat bs)"

text \<open>
  The file system as \<^verbatim>\<open>os.path\<close>, \<^verbatim>\<open>fopen\<close>, \<^verbatim>\<open>fwrite\<close> and \<^verbatim>\<open>fclose\<close> see
  it. What the operating system decides is a field of the state: \<open>fopen_null\<close> holds the
  paths on which \<^verbatim>\<open>fopen\<close> returns NULL for a reason the source does not test
  (permissions, a missing parent directory), \<open>free_space\<close> is the number of bytes the
  device still takes, \<open>fclose_status\<close> is what \<^verbatim>\<open>fclose\<close> of a written stream reports.
\<close>

datatype node = Directory | File "byte list"

record filesys =
  nodes :: "string \<Rightarrow> node option"
  fopen_null :: "string \<Rightarrow> bool"
  free_space :: nat
  fclose_status :: nat

definition path_exists :: "filesys \<Rightarrow> string \<Rightarrow> bool" where
  "path_exists fs loc = (nodes fs loc \<noteq> None)"

definition path_isdir :: "filesys \<Rightarrow> string \<Rightarrow> bool" where
  "path_isdir fs loc = (nodes fs loc = Some Directory)"

text \<open>A stream open for writing: its path, the bytes written, the room left.\<close>

record wstream =
  wpath :: string
  wbytes :: "byte list"
  wroom :: nat

text \<open>
  A stream open for reading: the bytes not yet read and the end-of-file indicator, which
  a read sets when it asks for more bytes than are left, and which \<^verbatim>\<open>feof\<close> tests.
  The indicator stays set (nothing in the source clears it after the first read), and
  a read on a stream whose indicator is set transfers nothing.
\<close>

record rstream =
  rest :: "byte list"
  eof :: bool

definition fopen_wb :: "filesys \<Rightarrow> string \<Rightarrow> wstream option" where
  "fopen_wb fs loc =
     (if fopen_null fs loc \<or> nodes fs loc = Some Directory then None
      else Some \<lparr>wpath = loc, wbytes = [], wroom = free_space fs\<rparr>)"

definition fopen_rb :: "filesys \<Rightarrow> string \<Rightarrow> rstream option" where
  "fopen_rb fs loc =
     (case nodes fs loc of
        Some (File bs) \<Rightarrow> if fopen_null fs loc then None else Some \<lparr>rest = bs, eof = False\<rparr>
      | _ \<Rightarrow> None)"

text \<open>
  \<^verbatim>\<open>fwrite(p, size, 1, fp)\<close> and \<^verbatim>\<open>fread(p, size, 1, fp)\<close> return the number of
  whole items transferred, 1 or 0. \<^verbatim>\<open>fread\<close> reads as by calls of \<^verbatim>\<open>fgetc\<close>, which
  returns no byte when the end-of-file indicator is set: then the read returns 0 and
  stores nothing. A read that finds fewer bytes than it asks for stores the bytes it
  got, sets the indicator and returns 0.
\<close>

definition fwrite :: "byte list \<Rightarrow> wstream \<Rightarrow> nat \<times> wstream" where
  "fwrite bs fp =
     (if length bs \<le> wroom fp
      then (1, fp\<lparr>wbytes := wbytes fp @ bs, wroom := wroom fp - length bs\<rparr>)
      else (0, fp\<lparr>wbytes := wbytes fp @ take (wroom fp) bs, wroom := 0\<rparr>))"

definition fread :: "nat \<Rightarrow> rstream \<Rightarrow> nat \<times> byte list \<times> rstream" where
  "fread n fp =
     (if eof fp then (0, [], fp)
      else if n \<le> length (rest fp)
      then (1, take n (rest fp), fp\<lparr>rest := drop n (rest fp)\<rparr>)
      else (0, rest fp, fp\<lparr>rest := [], eof := True\<rparr>))"

definition feof :: "rstream \<Rightarrow> bool" where
  "feof fp = eof fp"

definition fclose :: "filesys \<Rightarrow> wstream \<Rightarrow> nat \<times> filesys" where
  "fclose fs fp =
     (fclose_status fs,
      fs\<lparr>nodes := (nodes fs)(wpath fp \<mapsto> File (wbytes fp)), free_space := wroom fp\<rparr>)"

subsection \<open>The writer\<close>

text \<open>
  The module function \<^verbatim>\<open>_write(value, size, n, fp)\<close>:
  \<^verbatim>\<open>status = fwrite(value, size, 1, fp); assert status == 1, status\<close>.
  Its argument here is the bytes of the value.
\<close>

definition file_write :: "byte list \<Rightarrow> wstream \<Rightarrow> error + wstream" where
  "file_write data fp =
     (case fwrite data fp of (status, fp') \<Rightarrow>
        if status = 1 then Inr fp' else Inl AssertionError)"

record Writer =
  w_fp :: wstream
  w_nr_class :: class_t

text \<open>
  \<^verbatim>\<open>_Writer.__init__(self, loc, nr_class)\<close>. The assignment
  \<^verbatim>\<open>self._nr_class = nr_class\<close> converts a Python integer to \<^verbatim>\<open>class_t\<close> and raises
  OverflowError outside its range.
\<close>

definition Writer_init :: "filesys \<Rightarrow> string \<Rightarrow> int \<Rightarrow> error + Writer" where
  "Writer_init fs loc nr_class =
     (if path_exists fs loc \<and> path_isdir fs loc then Inl AssertionError
      else case fopen_wb fs loc of
        None \<Rightarrow> Inl AssertionError
      | Some fp \<Rightarrow>
          if nr_class < - (2 ^ 31) \<or> 2 ^ 31 \<le> nr_class then Inl OverflowError
          else case file_write (word_bytes (word_of_int nr_class :: class_t)) fp of
            Inl err \<Rightarrow> Inl err
          | Inr fp' \<Rightarrow> Inr \<lparr>w_fp = fp', w_nr_class = word_of_int nr_class\<rparr>)"

text \<open>\<^verbatim>\<open>_Writer.close\<close>: \<^verbatim>\<open>status = fclose(self._fp); assert status == 0\<close>.\<close>

definition Writer_close :: "filesys \<Rightarrow> Writer \<Rightarrow> error + filesys" where
  "Writer_close fs w =
     (case fclose fs (w_fp w) of (status, fs') \<Rightarrow>
        if status = 0 then Inr fs' else Inl AssertionError)"

text \<open>
  The scan of \<^verbatim>\<open>_Writer.write\<close>, from index \<open>i\<close> on:
  \<^verbatim>\<open>while feat[i].key >= 0: i += 1\<close>, with \<open>i\<close> a C int.
\<close>

fun scan_length :: "nat \<Rightarrow> 'w SparseArrayC list \<Rightarrow> error + nat" where
  "scan_length i [] = Inl UndefinedBehaviour"
| "scan_length i (e # es) =
     (if 0 \<le> sint (key e) then
        (if i < 2 ^ 31 - 1 then scan_length (i + 1) es else Inl UndefinedBehaviour)
      else Inr i)"

text \<open>
  Modelled from the spec: \<^verbatim>\<open>SparseArray.cmp\<close>, the comparison that \<^verbatim>\<open>qsort\<close> is
  given, is defined in thinc/sparse.pyx, which is not under \<^verbatim>\<open>src/\<close>. The spec says
  that the writer re-sorts "the vector's entries ascending by class_id": the comparison
  is the difference of the keys. \<open>qsort\<close> is the C library's sort with a comparison
  function, here an insertion sort.
\<close>

definition SparseArray_cmp :: "'w SparseArrayC \<Rightarrow> 'w SparseArrayC \<Rightarrow> int" where
  "SparseArray_cmp a b = sint (key a) - sint (key b)"

fun insort_cmp :: "('a \<Rightarrow> 'a \<Rightarrow> int) \<Rightarrow> 'a \<Rightarrow> 'a list \<Rightarrow> 'a list" where
  "insort_cmp cmp x [] = [x]"
| "insort_cmp cmp x (y # ys) =
     (if cmp x y \<le> 0 then x # y # ys else y # insort_cmp cmp x ys)"

definition qsort :: "('a \<Rightarrow> 'a \<Rightarrow> int) \<Rightarrow> 'a list \<Rightarrow> 'a list" where
  "qsort cmp xs = foldr (insort_cmp cmp) xs []"

text \<open>
  The last loop of \<^verbatim>\<open>_Writer.write\<close>:
  \<^verbatim>\<open>for i in range(length): _write(&feat[i].key, ...); _write(&feat[i].val, ...)\<close>.
\<close>

fun write_entries :: "weight_t SparseArrayC list \<Rightarrow> wstream \<Rightarrow> error + wstream" where
  "write_entries [] fp = Inr fp"
| "write_entries (e # es) fp =
     (case file_write (word_bytes (key e)) fp of
        Inl err \<Rightarrow> Inl err
      | Inr fp1 \<Rightarrow>
          (case file_write (word_bytes (val e)) fp1 of
             Inl err \<Rightarrow> Inl err
           | Inr fp2 \<Rightarrow> write_entries es fp2))"

text \<open>
  \<^verbatim>\<open>_Writer.write(self, feat_id, feat)\<close>. \<^verbatim>\<open>qsort\<close> sorts the first \<open>length\<close>
  entries of the array in place, so the vector is part of the result.
\<close>

definition Writer_write ::
  "Writer \<Rightarrow> feat_t \<Rightarrow> weight_t SparseArrayC list option
     \<Rightarrow> error + Writer \<times> weight_t SparseArrayC list option" where
  "Writer_write w feat_id feat =
     (case feat of
        None \<Rightarrow> Inr (w, None)
      | Some v \<Rightarrow>
          (case file_write (word_bytes feat_id) (w_fp w) of
             Inl err \<Rightarrow> Inl err
           | Inr fp1 \<Rightarrow>
               (case scan_length 0 v of
                  Inl err \<Rightarrow> Inl err
                | Inr i \<Rightarrow>
                    (case file_write (word_bytes (word_of_nat i :: int32_t)) fp1 of
                       Inl err \<Rightarrow> Inl err
                     | Inr fp2 \<Rightarrow>
                         (let v' = qsort SparseArray_cmp (take i v) @ drop i v
                          in case write_entries (take i v') fp2 of
                               Inl err \<Rightarrow> Inl err
                             | Inr fp3 \<Rightarrow> Inr (w\<lparr>w_fp := fp3\<rparr>, Some v'))))))"

text \<open>
  The loop of \<^verbatim>\<open>LinearModel.dump\<close> over \<^verbatim>\<open>self.weights.items()\<close>:
  \<^verbatim>\<open>if feat_addr != 0: writer.write(key, <SparseArrayC*>feat_addr)\<close>.
\<close>

fun dump_items ::
  "Writer \<Rightarrow> weight_t weights_table \<Rightarrow> error + Writer \<times> weight_t weights_table" where
  "dump_items writer [] = Inr (writer, [])"
| "dump_items writer ((k, feat_addr) # items) =
     (if feat_addr \<noteq> None then
        (case Writer_write writer k feat_addr of
           Inl err \<Rightarrow> Inl err
         | Inr (writer1, feat') \<Rightarrow>
             (case dump_items writer1 items of
                Inl err \<Rightarrow> Inl err
              | Inr (writer2, items') \<Rightarrow> Inr (writer2, (k, feat') # items')))
      else
        (case dump_items writer items of
           Inl err \<Rightarrow> Inl err
         | Inr (writer2, items') \<Rightarrow> Inr (writer2, (k, feat_addr) # items')))"

text \<open>
  \<^verbatim>\<open>LinearModel.dump(self, nr_class, loc)\<close>: the file system and the weights table
  after the call.
\<close>

definition dump ::
  "filesys \<Rightarrow> weight_t weights_table \<Rightarrow> int \<Rightarrow> string
     \<Rightarrow> error + filesys \<times> weight_t weights_table" where
  "dump fs weights nr_class loc =
     (case Writer_init fs loc nr_class of
        Inl err \<Rightarrow> Inl err
      | Inr writer \<Rightarrow>
          (case dump_items writer weights of
             Inl err \<Rightarrow> Inl err
           | Inr (writer', weights') \<Rightarrow>
               (case Writer_close fs writer' of
                  Inl err \<Rightarrow> Inl err
                | Inr fs' \<Rightarrow> Inr (fs', weights'))))"

subsection \<open>The reader\<close>

record Reader =
  r_fp :: rstream
  r_nr_class :: class_t

text \<open>
  \<^verbatim>\<open>_Reader.__init__(self, loc)\<close>, on a new object: a \<^verbatim>\<open>cdef class\<close> is allocated
  zeroed, so \<^verbatim>\<open>self._fp\<close> is NULL and \<^verbatim>\<open>self._nr_class\<close> is 0 when it starts. An
  assertion that fails leaves the method with an AssertionError; the result \<open>Inl\<close> then
  also holds what \<^verbatim>\<open>self._fp\<close> is at that moment (\<open>None\<close> is NULL). The status of the
  \<^verbatim>\<open>fread\<close> of the class count is not tested; the field holds whatever bytes the read
  stored. \<^verbatim>\<open>fseek(self._fp, 0, 0)\<close> on the stream just opened changes nothing.
\<close>

definition Reader_init :: "filesys \<Rightarrow> string \<Rightarrow> (error \<times> rstream option) + Reader" where
  "Reader_init fs loc =
     (if \<not> path_exists fs loc then Inl (AssertionError, None)
      else if path_isdir fs loc then Inl (AssertionError, None)
      else case fopen_rb fs loc of
        None \<Rightarrow> Inl (AssertionError, None)
      | Some fp \<Rightarrow>
          (case fread 4 fp of (status, bs, fp') \<Rightarrow>
             Inr \<lparr>r_fp = fp', r_nr_class = bytes_word bs\<rparr>))"

text \<open>
  \<^verbatim>\<open>_Reader.__dealloc__(self)\<close>: \<^verbatim>\<open>fclose(self._fp)\<close>, with no test of the pointer.
  \<^verbatim>\<open>fclose\<close> of a null pointer is undefined. Closing a stream that was read changes
  nothing in the file system.
\<close>

definition Reader_dealloc :: "rstream option \<Rightarrow> error + unit" where
  "Reader_dealloc fp = (case fp of None \<Rightarrow> Inl UndefinedBehaviour | Some s \<Rightarrow> Inr ())"

text \<open>
  The call \<^verbatim>\<open>_Reader(loc)\<close>: a new object is allocated and \<^verbatim>\<open>__init__\<close> runs on it.
  When \<^verbatim>\<open>__init__\<close> raises, the object is released before the exception reaches the
  caller, and \<^verbatim>\<open>__dealloc__\<close> runs on it as \<^verbatim>\<open>__init__\<close> left it.
\<close>

definition Reader_new :: "filesys \<Rightarrow> string \<Rightarrow> error + Reader" where
  "Reader_new fs loc =
     (case Reader_init fs loc of
        Inl (err, fp) \<Rightarrow>
          (case Reader_dealloc fp of
             Inl err' \<Rightarrow> Inl err'
           | Inr u \<Rightarrow> Inl err)
      | Inr reader \<Rightarrow> Inr reader)"

text \<open>
  The loop of \<^verbatim>\<open>_Reader.read\<close> that fills the entries:
  \<^verbatim>\<open>for i in range(length):
      status = fread(&feat[i].key, ...); assert status
      status = fread(&feat[i].val, ...); assert status\<close>
\<close>

fun read_entries :: "nat \<Rightarrow> rstream \<Rightarrow> error + weight_t SparseArrayC list \<times> rstream" where
  "read_entries 0 fp = Inr ([], fp)"
| "read_entries (Suc n) fp =
     (case fread 4 fp of (status, kb, fp1) \<Rightarrow>
        if status = 0 then Inl AssertionError
        else (case fread 4 fp1 of (status, vb, fp2) \<Rightarrow>
          if status = 0 then Inl AssertionError
          else (case read_entries n fp2 of
                  Inl err \<Rightarrow> Inl err
                | Inr (es, fp3) \<Rightarrow> Inr (\<lparr>key = bytes_word kb, val = bytes_word vb\<rparr> # es, fp3))))"

text \<open>
  \<^verbatim>\<open>_Reader.read(self, mem, out_id, out_feat)\<close>. The result is the returned int, what
  the call stored through \<^verbatim>\<open>out_id\<close> and \<^verbatim>\<open>out_feat\<close> (\<open>None\<close> when it returned
  before storing anything) and the reader after the call. \<open>len\<close> below is the source's
  \<^verbatim>\<open>length\<close>, an \<^verbatim>\<open>int32_t\<close>. The array is allocated with
  \<^verbatim>\<open>(length + 1) * sizeof(SparseArrayC)\<close> bytes: the sum is one of C ints and
  overflows, which is undefined, when \<^verbatim>\<open>length\<close> is \<open>2^31 - 1\<close>; a negative
  \<^verbatim>\<open>length\<close> puts \<^verbatim>\<open>feat[length]\<close> outside the array. Both are decided before the
  first entry is read or written. The allocation is taken to succeed, as the source
  does ("Trust We allocated correctly above").
\<close>

definition Reader_read ::
  "Reader \<Rightarrow> error + int \<times> (feat_t \<times> weight_t SparseArrayC list) option \<times> Reader" where
  "Reader_read rd =
     (case fread 8 (r_fp rd) of (status, ib, fp1) \<Rightarrow>
        if status = 0 then Inr (0, None, rd\<lparr>r_fp := fp1\<rparr>)
        else (case fread 4 fp1 of (status, lb, fp2) \<Rightarrow>
          if status = 0 then Inl AssertionError
          else
            (let len = (bytes_word lb :: int32_t)
             in if 2 ^ 31 - 1 < sint len + 1 then Inl UndefinedBehaviour
                else if sint len < 0 then Inl UndefinedBehaviour
                else (case read_entries (nat (sint len)) fp2 of
                        Inl err \<Rightarrow> Inl err
                      | Inr (es, fp3) \<Rightarrow>
                          (let feat = es @ [\<lparr>key = - 2, val = 0\<rparr>]
                           in Inr (if feof fp3 then 0 else 1,
                                   Some (bytes_word ib, feat),
                                   rd\<lparr>r_fp := fp3\<rparr>))))))"

text \<open>\<^verbatim>\<open>PreshMap.set\<close>: the value of an existing key is replaced, a new key is added.\<close>

fun map_set ::
  "'w weights_table \<Rightarrow> feat_t \<Rightarrow> 'w SparseArrayC list option \<Rightarrow> 'w weights_table" where
  "map_set [] k v = [(k, v)]"
| "map_set ((k', v') # items) k v =
     (if k' = k then (k, v) # items else (k', v') # map_set items k v)"

lemma read_entries_rest:
  "read_entries n fp = Inr (es, fp') \<Longrightarrow> length (rest fp') \<le> length (rest fp)"
proof (induction n arbitrary: fp es)
  case 0
  then show ?case by simp
next
  case (Suc n)
  from Suc.prems obtain es' where
    "read_entries n ((fp\<lparr>rest := drop 4 (rest fp)\<rparr>)\<lparr>rest := drop 4 (drop 4 (rest fp))\<rparr>)
       = Inr (es', fp')"
    by (auto simp: fread_def split: if_splits sum.splits)
  from Suc.IH [OF this] show ?case by simp
qed

lemma Reader_read_progress:
  assumes "Reader_read rd = Inr (status, out, rd')" and "status \<noteq> 0"
  shows "length (rest (r_fp rd')) < length (rest (r_fp rd))"
proof -
  from assms obtain es fp3 where
    len: "8 \<le> length (rest (r_fp rd))" "4 \<le> length (rest (r_fp rd)) - 8"
    and rd: "read_entries (nat (sint (bytes_word (take 4 (drop 8 (rest (r_fp rd)))) :: int32_t)))
       (r_fp rd\<lparr>rest := drop 8 (rest (r_fp rd)), rest := drop 4 (drop 8 (rest (r_fp rd)))\<rparr>)
       = Inr (es, fp3)"
    and fp3: "r_fp rd' = fp3"
    by (auto simp: Reader_read_def fread_def Let_def split: if_splits sum.splits)
  from read_entries_rest [OF rd] fp3 len show ?thesis by simp
qed

text \<open>
  The loop of \<^verbatim>\<open>LinearModel.load\<close>:
  \<^verbatim>\<open>while reader.read(self.mem, &feat_id, &feature):
      self.weights.set(feat_id, feature)\<close>.
  \<^verbatim>\<open>feat_id\<close> and \<^verbatim>\<open>feature\<close> are locals without an initial value; the loop body
  uses what the call stored in them.
\<close>

function load_loop ::
  "Reader \<Rightarrow> weight_t weights_table \<Rightarrow> error + weight_t weights_table \<times> Reader" where
  "load_loop reader weights =
     (case Reader_read reader of
        Inl err \<Rightarrow> Inl err
      | Inr (status, out, reader') \<Rightarrow>
          if status \<noteq> 0 then
            (case out of
               None \<Rightarrow> Inl UndefinedBehaviour
             | Some (feat_id, feature) \<Rightarrow>
                 load_loop reader' (map_set weights feat_id (Some feature)))
          else Inr (weights, reader'))"
  by pat_completeness auto
termination
  by (relation "measure (\<lambda>(reader, weights). length (rest (r_fp reader)))")
     (auto dest: Reader_read_progress)

declare load_loop.simps [simp del]

text \<open>
  \<^verbatim>\<open>LinearModel.load(self, loc)\<close>: the weights table after the call and the returned
  \<^verbatim>\<open>reader._nr_class\<close>, a Python integer. The reader is a local of the method: it is
  released when the method returns, and \<^verbatim>\<open>__dealloc__\<close> closes its stream.
\<close>

definition load ::
  "filesys \<Rightarrow> weight_t weights_table \<Rightarrow> string \<Rightarrow> error + weight_t weights_table \<times> int" where
  "load fs weights loc =
     (case Reader_new fs loc of
        Inl err \<Rightarrow> Inl err
      | Inr reader \<Rightarrow>
          (case load_loop reader weights of
             Inl err \<Rightarrow> Inl err
           | Inr (weights', reader') \<Rightarrow>
               (case Reader_dealloc (Some (r_fp reader')) of
                  Inl err \<Rightarrow> Inl err
                | Inr u \<Rightarrow> Inr (weights', sint (r_nr_class reader')))))"

subsection \<open>The file format\<close>

text \<open>
  The bytes of one entry, of one record (feature key, 32-bit length, entries) and of a
  list of records, as the spec's file format gives them; \<open>file_records\<close> are the
  records that stand for a weights table: one for each item that holds a vector, with
  the entries before the vector's first negative key, sorted. \<open>bytes_entries n bs\<close>
  reads \<open>n\<close> entries back from bytes.
\<close>

definition entry_bytes :: "weight_t SparseArrayC \<Rightarrow> byte list" where
  "entry_bytes e = word_bytes (key e) @ word_bytes (val e)"

definition record_bytes :: "feat_t \<Rightarrow> weight_t SparseArrayC list \<Rightarrow> byte list" where
  "record_bytes feat_id es =
     word_bytes feat_id @ word_bytes (word_of_nat (length es) :: int32_t)
       @ concat (map entry_bytes es)"

definition records_bytes :: "(feat_t \<times> weight_t SparseArrayC list) list \<Rightarrow> byte list" where
  "records_bytes recs = concat (map (\<lambda>(k, es). record_bytes k es) recs)"

fun file_records ::
  "weight_t weights_table \<Rightarrow> (feat_t \<times> weight_t SparseArrayC list) list" where
  "file_records [] = []"
| "file_records ((k, None) # items) = file_records items"
| "file_records ((k, Some v) # items) = (k, qsort SparseArray_cmp (live v)) # file_records items"

fun bytes_entries :: "nat \<Rightarrow> byte list \<Rightarrow> weight_t SparseArrayC list" where
  "bytes_entries 0 bs = []"
| "bytes_entries (Suc n) bs =
     \<lparr>key = bytes_word (take 4 bs), val = bytes_word (take 4 (drop 4 bs))\<rparr>
       # bytes_entries n (drop 8 bs)"

subsection \<open>Doubling a feature value\<close>

text \<open>
  \<open>doubling_exact A dbl v class_weights scores\<close> follows the inner loop of
  \<^verbatim>\<open>set_scores\<close> for the value \<open>v\<close> from the buffer \<open>scores\<close> and says of each
  update \<^verbatim>\<open>scores[c] += w * v\<close> it makes that the arithmetic doubles it exactly:
  with the doubled value and the doubled score, the update gives the doubled result.
\<close>

fun doubling_exact ::
  "'w arith \<Rightarrow> ('w \<Rightarrow> 'w) \<Rightarrow> 'w \<Rightarrow> 'w SparseArrayC list \<Rightarrow> 'w list \<Rightarrow> bool" where
  "doubling_exact A dbl v [] scores = True"
| "doubling_exact A dbl v (e # es) scores =
     (if 0 \<le> sint (key e) \<and> nat (sint (key e)) < length scores then
        add A (dbl (scores ! nat (sint (key e)))) (mul A (val e) (dbl v))
          = dbl (add A (scores ! nat (sint (key e))) (mul A (val e) v)) \<and>
        doubling_exact A dbl v es
          (scores[nat (sint (key e)) := add A (scores ! nat (sint (key e))) (mul A (val e) v)])
      else True)"

text \<open>
  A condition on a run in float arithmetic under which each of its updates is doubled
  exactly: at every update the value, the score and the product \<open>w * v\<close> are finite
  and stay finite when doubled, and the exact product does not underflow.
\<close>

fun f32_doubling_safe ::
  "weight_t \<Rightarrow> weight_t SparseArrayC list \<Rightarrow> weight_t list \<Rightarrow> bool" where
  "f32_doubling_safe v [] scores = True"
| "f32_doubling_safe v (e # es) scores =
     (if 0 \<le> sint (key e) \<and> nat (sint (key e)) < length scores then
        f32_doubles v \<and> f32_product_safe (val e) v \<and> f32_doubles (f32_mul (val e) v) \<and>
        f32_doubles (scores ! nat (sint (key e))) \<and>
        f32_doubling_safe v es
          (scores[nat (sint (key e)) := f32_add (scores ! nat (sint (key e))) (f32_mul (val e) v)])
      else True)"

subsection \<open>MultiLayerPerceptron.backprop\<close>

text \<open>
  The fields of \<^verbatim>\<open>ExampleC\<close> and \<^verbatim>\<open>GradientC\<close> that \<^verbatim>\<open>backprop\<close> uses (the
  structs are declared outside \<^verbatim>\<open>src/\<close>): a vector is the list of its elements, a
  matrix the list of its rows. \<open>eg_scores\<close> is \<^verbatim>\<open>eg.scores\<close>, \<open>grad_b\<close> the field
  \<^verbatim>\<open>b\<close> of a gradient, and so on.
\<close>

record 'w GradientC =
  grad_W :: "'w list list"
  grad_b :: "'w list"

record 'w ExampleC =
  eg_nr_class :: int
  eg_scores :: "'w list"
  eg_target :: "'w list"
  eg_signal :: "'w list list"
  eg_deltas :: "'w list list"
  eg_grad :: "'w GradientC list"

text \<open>\<^verbatim>\<open>memcpy(dest, src, n * sizeof(src[0]))\<close>: the first \<open>n\<close> elements are copied.\<close>

definition memcpy :: "'a list \<Rightarrow> 'a list \<Rightarrow> int \<Rightarrow> error + 'a list" where
  "memcpy dest src n =
     (if n < 0 \<or> int (length src) < n \<or> int (length dest) < n then Inl UndefinedBehaviour
      else Inr (take (nat n) src @ drop (nat n) dest))"

text \<open>
  Modelled from the spec: \<^verbatim>\<open>Matrix.isubC\<close>, \<^verbatim>\<open>Matrix.iaddC\<close> and
  \<^verbatim>\<open>Matrix.iadd_outerC\<close> are defined in thinc/matrix, which is not under \<^verbatim>\<open>src/\<close>.
  The spec says of them: "the terminal delta equals scores - target", "accumulate bias
  gradient += delta" and "accumulate weight gradient += outer_product(delta, that
  layer's input signal)". Each works in place on its first argument, element by element,
  and reads outside its second argument when that one is shorter.
\<close>

definition isubC :: "'w arith \<Rightarrow> 'w list \<Rightarrow> 'w list \<Rightarrow> error + 'w list" where
  "isubC A me you =
     (if length you < length me then Inl UndefinedBehaviour
      else Inr (map (\<lambda>(x, y). sub A x y) (zip me you)))"

definition iaddC :: "'w arith \<Rightarrow> 'w list \<Rightarrow> 'w list \<Rightarrow> 'w \<Rightarrow> error + 'w list" where
  "iaddC A me you scale =
     (if length you < length me then Inl UndefinedBehaviour
      else Inr (map (\<lambda>(x, y). add A x (mul A y scale)) (zip me you)))"

definition iadd_outerC ::
  "'w arith \<Rightarrow> 'w list list \<Rightarrow> 'w list \<Rightarrow> 'w list \<Rightarrow> error + 'w list list" where
  "iadd_outerC A me delta sig =
     (if length delta < length me \<or> (\<exists>row \<in> set me. length sig < length row)
      then Inl UndefinedBehaviour
      else Inr (map (\<lambda>(row, d). map (\<lambda>(x, s). add A x (mul A d s)) (zip row sig))
                  (zip me delta)))"

text \<open>
  The loop of \<^verbatim>\<open>backprop\<close>, from layer \<open>i\<close> down to layer 0
  (\<^verbatim>\<open>for i in range(self.depth, -1, -1)\<close>):
  \<^verbatim>\<open>Matrix.iaddC(eg.grad[i].b, &eg.deltas[i], 1.0)
  Matrix.iadd_outerC(eg.grad[i].W, &eg.deltas[i], &eg.signal[i])
  if i >= 1:
      layers[i].d_activate(&eg.delta[i-1], &layers[i], &eg.signal[i])\<close>
  The derivative of the activation is a function pointer of the layer, "model
  configuration" in the spec: it is the parameter \<open>d_activate\<close>, which gives the new
  \<^verbatim>\<open>delta[i-1]\<close>. \<open>layers\<close> is the array that \<^verbatim>\<open>self.weights.get(1)\<close> returns.
\<close>

fun backprop_layers ::
  "'w arith \<Rightarrow> ('w list \<Rightarrow> 'l \<Rightarrow> 'w list \<Rightarrow> 'w list) \<Rightarrow> 'l list \<Rightarrow> nat \<Rightarrow> 'w ExampleC
     \<Rightarrow> error + 'w ExampleC" where
  "backprop_layers A d_activate layers i eg =
     (if \<not> (i < length (eg_grad eg) \<and> i < length (eg_deltas eg) \<and> i < length (eg_signal eg))
      then Inl UndefinedBehaviour
      else case iaddC A (grad_b (eg_grad eg ! i)) (eg_deltas eg ! i) (one A) of
        Inl err \<Rightarrow> Inl err
      | Inr b' \<Rightarrow>
          (case iadd_outerC A (grad_W (eg_grad eg ! i)) (eg_deltas eg ! i) (eg_signal eg ! i) of
             Inl err \<Rightarrow> Inl err
           | Inr W' \<Rightarrow>
               (let eg1 = eg\<lparr>eg_grad := (eg_grad eg)[i := \<lparr>grad_W = W', grad_b = b'\<rparr>]\<rparr>
                in if 1 \<le> i then
                     (if \<not> i < length layers then Inl UndefinedBehaviour
                      else backprop_layers A d_activate layers (i - 1)
                             (eg1\<lparr>eg_deltas := (eg_deltas eg1)
                                   [i - 1 := d_activate (eg_deltas eg1 ! (i - 1)) (layers ! i)
                                               (eg_signal eg1 ! i)]\<rparr>))
                   else Inr eg1)))"

declare backprop_layers.simps [simp del]

text \<open>
  \<^verbatim>\<open>MultiLayerPerceptron.backprop(self, eg)\<close>, with \<open>depth\<close> for \<^verbatim>\<open>self.depth\<close>:
  \<^verbatim>\<open>memcpy(eg.deltas[self.depth], eg.scores, eg.nr_class * sizeof(eg.scores[0]))
  Matrix.isubC(eg.deltas[self.depth], eg.target)\<close>
  and then the loop.
\<close>

definition backprop ::
  "'w arith \<Rightarrow> ('w list \<Rightarrow> 'l \<Rightarrow> 'w list \<Rightarrow> 'w list) \<Rightarrow> 'l list \<Rightarrow> nat \<Rightarrow> 'w ExampleC
     \<Rightarrow> error + 'w ExampleC" where
  "backprop A d_activate layers depth eg =
     (if \<not> depth < length (eg_deltas eg) then Inl UndefinedBehaviour
      else case memcpy (eg_deltas eg ! depth) (eg_scores eg) (eg_nr_class eg) of
        Inl err \<Rightarrow> Inl err
      | Inr d1 \<Rightarrow>
          (case isubC A d1 (eg_target eg) of
             Inl err \<Rightarrow> Inl err
           | Inr d2 \<Rightarrow>
               backprop_layers A d_activate layers depth
                 (eg\<lparr>eg_deltas := (eg_deltas eg)[depth := d2]\<rparr>)))"

section \<open>Properties\<close>

subsection \<open>Evaluating the float arithmetic\<close>

lemma bitlen_eqI: "2 ^ k \<le> m \<Longrightarrow> m < 2 ^ Suc k \<Longrightarrow> bitlen m = Suc k"
proof (induction k arbitrary: m)
  case 0
  then have "m = Suc 0" by simp
  then show ?case by (simp add: bitlen.simps [of "Suc 0"] bitlen.simps [of 0])
next
  case (Suc k)
  have "2 ^ k \<le> m div 2" "m div 2 < 2 ^ Suc k"
    using Suc.prems by simp_all
  then have "bitlen (m div 2) = Suc k" by (rule Suc.IH)
  moreover have "m \<noteq> 0" using Suc.prems by auto
  ultimately show ?case by (simp add: bitlen.simps [of m])
qed

lemma f32_mul_Finite:
  "f32_decode a = Finite s m e \<Longrightarrow> f32_decode b = Finite t n f \<Longrightarrow>
   f32_mul a b = f32_round (s \<noteq> t) (m * n) (e + f)"
  by (simp add: f32_mul_def)

lemma f32_mul_zero_right:
  "f32_decode a = Finite s m e \<Longrightarrow> f32_mul a 0 = f32_pack s 0 0"
  by (simp add: f32_mul_def f32_decode_def [of 0] f32_round_def bitlen.simps [of 0] Let_def
      round_half_even_def)

lemma f32_decode_exponent: "f32_decode b = Finite t n f \<Longrightarrow> - 149 \<le> f"
proof -
  assume b: "f32_decode b = Finite t n f"
  define ex where "ex = unat (take_bit 8 (drop_bit 23 b))"
  from b have "f = - 149 \<or> (ex \<noteq> 0 \<and> f = int ex - 150)"
    unfolding f32_decode_def Let_def ex_def [symmetric] by (simp split: if_splits)
  then show ?thesis by auto
qed

lemma f32_add_zero_left:
  assumes b: "f32_decode b = Finite t n f" and n: "n \<noteq> 0"
  shows "f32_add 0 b = f32_round t (n * 2 ^ nat (f + 149)) (- 149)"
proof -
  have z: "f32_decode 0 = Finite False 0 (- 149)"
    by (simp add: f32_decode_def Let_def)
  have f: "- 149 \<le> f"
    using b by (rule f32_decode_exponent)
  then have g: "min (- 149) f = - 149" by simp
  have y: "nat \<bar>(if t then - 1 else 1) * int n * 2 ^ nat (f + 149)\<bar> = n * 2 ^ nat (f + 149)"
    by (simp add: abs_mult nat_mult_distrib nat_power_eq)
  have neg: "((if t then - 1 else 1) * int n * 2 ^ nat (f + 149) < 0) = t"
    using n by (simp add: mult_less_0_iff)
  have nz: "(if t then - 1 else 1) * int n * (2::int) ^ nat (f + 149) \<noteq> 0"
    using n by simp
  have "f32_add 0 b =
    (let z = (if t then - 1 else 1) * int n * 2 ^ nat (f + 149)
     in if z = 0 then f32_pack (False \<and> t) 0 0 else f32_round (z < 0) (nat \<bar>z\<bar>) (- 149))"
    unfolding f32_add_def z b by (simp add: g Let_def)
  also have "\<dots> = f32_round t (n * 2 ^ nat (f + 149)) (- 149)"
    unfolding Let_def using nz by (simp only: y neg if_False)
  finally show ?thesis .
qed

lemmas f32_eval = Let_def round_half_even_def f32_pack_def

text \<open>
  The floats of the scenarios, as bit patterns: 1.5 is \<open>0x3FC00000\<close>, 2.0 is
  \<open>0x40000000\<close>, -2.0 is \<open>0xC0000000\<close>, 3.0 is \<open>0x40400000\<close>, -4.0 is
  \<open>0xC0800000\<close>, 4.0 is \<open>0x40800000\<close>, 6.0 is \<open>0x40C00000\<close>, -8.0 is
  \<open>0xC1000000\<close>; \<open>0x00000001\<close> is \<open>2^-149\<close>, the least positive float, and
  \<open>0x00000002\<close>, \<open>0x00000003\<close>, \<open>0x00000004\<close> are its multiples.
\<close>

lemma f32_decode_1_5: "f32_decode 0x3FC00000 = Finite False 12582912 (- 23)"
  by (simp add: f32_decode_def Let_def)

lemma f32_decode_2: "f32_decode 0x40000000 = Finite False 8388608 (- 22)"
  by (simp add: f32_decode_def Let_def)

lemma f32_decode_m2: "f32_decode 0xC0000000 = Finite True 8388608 (- 22)"
  by (simp add: f32_decode_def Let_def)

lemma f32_decode_3: "f32_decode 0x40400000 = Finite False 12582912 (- 22)"
  by (simp add: f32_decode_def Let_def)

lemma f32_decode_m4: "f32_decode 0xC0800000 = Finite True 8388608 (- 21)"
  by (simp add: f32_decode_def Let_def)

lemma f32_decode_4: "f32_decode 0x40800000 = Finite False 8388608 (- 21)"
  by (simp add: f32_decode_def Let_def)

lemma f32_decode_6: "f32_decode 0x40C00000 = Finite False 12582912 (- 21)"
  by (simp add: f32_decode_def Let_def)

lemma f32_decode_m8: "f32_decode 0xC1000000 = Finite True 8388608 (- 20)"
  by (simp add: f32_decode_def Let_def)

lemma f32_decode_u1: "f32_decode 0x00000001 = Finite False 1 (- 149)"
  by (simp add: f32_decode_def Let_def)

lemma f32_decode_u2: "f32_decode 0x00000002 = Finite False 2 (- 149)"
  by (simp add: f32_decode_def Let_def)

lemma f32_decode_u3: "f32_decode 0x00000003 = Finite False 3 (- 149)"
  by (simp add: f32_decode_def Let_def)

lemma f32_decode_u4: "f32_decode 0x00000004 = Finite False 4 (- 149)"
  by (simp add: f32_decode_def Let_def)

lemma f32_mul_1_5_2: "f32_mul 0x3FC00000 0x40000000 = 0x40400000"
proof -
  have bl: "bitlen 105553116266496 = Suc 46"
    by (rule bitlen_eqI) simp_all
  have rnd: "f32_round False 105553116266496 (- 45) = 0x40400000"
    by (simp add: f32_round_def bl f32_eval)
  show ?thesis
    by (simp add: f32_mul_Finite [OF f32_decode_1_5 f32_decode_2] rnd)
qed

lemma f32_mul_m2_2: "f32_mul 0xC0000000 0x40000000 = 0xC0800000"
proof -
  have bl: "bitlen 70368744177664 = Suc 46"
    by (rule bitlen_eqI) simp_all
  have rnd: "f32_round True 70368744177664 (- 44) = 0xC0800000"
    by (simp add: f32_round_def bl f32_eval)
  show ?thesis
    by (simp add: f32_mul_Finite [OF f32_decode_m2 f32_decode_2] rnd)
qed

lemma f32_add_0_3: "f32_add 0 0x40400000 = 0x40400000"
proof -
  have bl: "bitlen 2140871539058939821587428954174242704574119936 = Suc 150"
    by (rule bitlen_eqI) simp_all
  have rnd: "f32_round False 2140871539058939821587428954174242704574119936 (- 149) = 0x40400000"
    by (simp add: f32_round_def bl f32_eval)
  show ?thesis
    by (simp add: f32_add_zero_left [OF f32_decode_3] rnd)
qed

lemma f32_add_0_m4: "f32_add 0 0xC0800000 = 0xC0800000"
proof -
  have bl: "bitlen 2854495385411919762116571938898990272765493248 = Suc 151"
    by (rule bitlen_eqI) simp_all
  have rnd: "f32_round True 2854495385411919762116571938898990272765493248 (- 149) = 0xC0800000"
    by (simp add: f32_round_def bl f32_eval)
  show ?thesis
    by (simp add: f32_add_zero_left [OF f32_decode_m4] rnd)
qed


lemma f32_mul_1_5_4: "f32_mul 0x3FC00000 0x40800000 = 0x40C00000"
proof -
  have bl: "bitlen 105553116266496 = Suc 46"
    by (rule bitlen_eqI) simp_all
  have rnd: "f32_round False 105553116266496 (- 44) = 0x40C00000"
    by (simp add: f32_round_def bl f32_eval)
  show ?thesis
    by (simp add: f32_mul_Finite [OF f32_decode_1_5 f32_decode_4] rnd)
qed

lemma f32_mul_m2_4: "f32_mul 0xC0000000 0x40800000 = 0xC1000000"
proof -
  have bl: "bitlen 70368744177664 = Suc 46"
    by (rule bitlen_eqI) simp_all
  have rnd: "f32_round True 70368744177664 (- 43) = 0xC1000000"
    by (simp add: f32_round_def bl f32_eval)
  show ?thesis
    by (simp add: f32_mul_Finite [OF f32_decode_m2 f32_decode_4] rnd)
qed

lemma f32_add_0_6: "f32_add 0 0x40C00000 = 0x40C00000"
proof -
  have bl: "bitlen 4281743078117879643174857908348485409148239872 = Suc 151"
    by (rule bitlen_eqI) simp_all
  have rnd: "f32_round False 4281743078117879643174857908348485409148239872 (- 149) = 0x40C00000"
    by (simp add: f32_round_def bl f32_eval)
  show ?thesis
    by (simp add: f32_add_zero_left [OF f32_decode_6] rnd)
qed

lemma f32_add_0_m8: "f32_add 0 0xC1000000 = 0xC1000000"
proof -
  have bl: "bitlen 5708990770823839524233143877797980545530986496 = Suc 152"
    by (rule bitlen_eqI) simp_all
  have rnd: "f32_round True 5708990770823839524233143877797980545530986496 (- 149) = 0xC1000000"
    by (simp add: f32_round_def bl f32_eval)
  show ?thesis
    by (simp add: f32_add_zero_left [OF f32_decode_m8] rnd)
qed

lemma f32_mul_2_2: "f32_mul 0x40000000 0x40000000 = 0x40800000"
proof -
  have bl: "bitlen 70368744177664 = Suc 46"
    by (rule bitlen_eqI) simp_all
  have rnd: "f32_round False 70368744177664 (- 44) = 0x40800000"
    by (simp add: f32_round_def bl f32_eval)
  show ?thesis
    by (simp add: f32_mul_Finite [OF f32_decode_2 f32_decode_2] rnd)
qed

lemma f32_mul_2_3: "f32_mul 0x40000000 0x40400000 = 0x40C00000"
proof -
  have bl: "bitlen 105553116266496 = Suc 46"
    by (rule bitlen_eqI) simp_all
  have rnd: "f32_round False 105553116266496 (- 44) = 0x40C00000"
    by (simp add: f32_round_def bl f32_eval)
  show ?thesis
    by (simp add: f32_mul_Finite [OF f32_decode_2 f32_decode_3] rnd)
qed

lemma f32_mul_2_m4: "f32_mul 0x40000000 0xC0800000 = 0xC1000000"
proof -
  have bl: "bitlen 70368744177664 = Suc 46"
    by (rule bitlen_eqI) simp_all
  have rnd: "f32_round True 70368744177664 (- 43) = 0xC1000000"
    by (simp add: f32_round_def bl f32_eval)
  show ?thesis
    by (simp add: f32_mul_Finite [OF f32_decode_2 f32_decode_m4] rnd)
qed

lemma f32_mul_1_5_u1: "f32_mul 0x3FC00000 0x00000001 = 0x00000002"
proof -
  have bl: "bitlen 12582912 = Suc 23"
    by (rule bitlen_eqI) simp_all
  have rnd: "f32_round False 12582912 (- 172) = 0x00000002"
    by (simp add: f32_round_def bl f32_eval)
  show ?thesis
    by (simp add: f32_mul_Finite [OF f32_decode_1_5 f32_decode_u1] rnd)
qed

lemma f32_mul_1_5_u2: "f32_mul 0x3FC00000 0x00000002 = 0x00000003"
proof -
  have bl: "bitlen 25165824 = Suc 24"
    by (rule bitlen_eqI) simp_all
  have rnd: "f32_round False 25165824 (- 172) = 0x00000003"
    by (simp add: f32_round_def bl f32_eval)
  show ?thesis
    by (simp add: f32_mul_Finite [OF f32_decode_1_5 f32_decode_u2] rnd)
qed

lemma f32_mul_2_u1: "f32_mul 0x40000000 0x00000001 = 0x00000002"
proof -
  have bl: "bitlen 8388608 = Suc 23"
    by (rule bitlen_eqI) simp_all
  have rnd: "f32_round False 8388608 (- 171) = 0x00000002"
    by (simp add: f32_round_def bl f32_eval)
  show ?thesis
    by (simp add: f32_mul_Finite [OF f32_decode_2 f32_decode_u1] rnd)
qed

lemma f32_mul_2_u2: "f32_mul 0x40000000 0x00000002 = 0x00000004"
proof -
  have bl: "bitlen 16777216 = Suc 24"
    by (rule bitlen_eqI) simp_all
  have rnd: "f32_round False 16777216 (- 171) = 0x00000004"
    by (simp add: f32_round_def bl f32_eval)
  show ?thesis
    by (simp add: f32_mul_Finite [OF f32_decode_2 f32_decode_u2] rnd)
qed

lemma f32_add_0_u2: "f32_add 0 0x00000002 = 0x00000002"
proof -
  have bl: "bitlen 2 = Suc 1"
    by (rule bitlen_eqI) simp_all
  have rnd: "f32_round False 2 (- 149) = 0x00000002"
    by (simp add: f32_round_def bl f32_eval)
  show ?thesis
    by (simp add: f32_add_zero_left [OF f32_decode_u2] rnd)
qed

lemma f32_add_0_u3: "f32_add 0 0x00000003 = 0x00000003"
proof -
  have bl: "bitlen 3 = Suc 1"
    by (rule bitlen_eqI) simp_all
  have rnd: "f32_round False 3 (- 149) = 0x00000003"
    by (simp add: f32_round_def bl f32_eval)
  show ?thesis
    by (simp add: f32_add_zero_left [OF f32_decode_u3] rnd)
qed

lemma f32_mul_2_0: "f32_mul 0x40000000 0 = 0"
  by (simp add: f32_mul_zero_right [OF f32_decode_2] f32_pack_def)

subsection \<open>LinearModel.set_scores\<close>

lemma list_update_Cons_numeral:
  "(x # xs)[numeral k := y] = x # xs[pred_numeral k := y]"
  by (simp add: numeral_eq_Suc)

lemma replicate_numeral_Cons:
  "replicate (numeral k) x = x # replicate (pred_numeral k) x"
  by (simp add: numeral_eq_Suc)

lemmas list_eval = list_update_Cons_numeral replicate_numeral_Cons

lemma score_feats_absent:
  "\<forall>feat \<in> set feats. map_get weights_table (FeatureC.key feat) = None \<Longrightarrow>
   score_feats A weights_table feats scores = Inr scores"
  by (induction feats) simp_all

lemma add_class_weights_frame:
  "add_class_weights A v j class_weights scores = Inr scores' \<Longrightarrow>
   length scores' = length scores \<and>
   (\<forall>c. c \<notin> class_ids class_weights \<longrightarrow> scores' ! c = scores ! c)"
proof (induction class_weights arbitrary: j scores)
  case Nil
  then show ?case by simp
next
  case (Cons e es)
  show ?case
  proof (cases "0 \<le> sint (key e)")
    case False
    with Cons.prems show ?thesis by simp
  next
    case True
    let ?c = "nat (sint (key e))"
    let ?s = "scores[?c := add A (scores ! ?c) (mul A (val e) v)]"
    from True Cons.prems have run: "add_class_weights A v (j + 1) es ?s = Inr scores'"
      by (simp split: if_splits)
    from Cons.IH [OF run] have len: "length scores' = length scores"
      and fr: "\<And>c. c \<notin> class_ids es \<Longrightarrow> scores' ! c = ?s ! c"
      by simp_all
    have ids: "class_ids (e # es) = insert ?c (class_ids es)"
      using True by (simp add: class_ids_def live_def)
    show ?thesis
      using len fr ids by auto
  qed
qed

lemma score_feats_frame:
  "score_feats A weights_table feats scores = Inr scores' \<Longrightarrow>
   length scores' = length scores \<and>
   (\<forall>c. (\<forall>feat \<in> set feats. \<forall>cw. map_get weights_table (FeatureC.key feat) = Some cw
             \<longrightarrow> c \<notin> class_ids cw)
        \<longrightarrow> scores' ! c = scores ! c)"
proof (induction feats arbitrary: scores)
  case Nil
  then show ?case by simp
next
  case (Cons feat feats)
  show ?case
  proof (cases "map_get weights_table (FeatureC.key feat)")
    case None
    with Cons.prems have "score_feats A weights_table feats scores = Inr scores'"
      by simp
    from Cons.IH [OF this] show ?thesis by simp
  next
    case (Some cw)
    with Cons.prems obtain s1 where
      s1: "add_class_weights A (FeatureC.val feat) 0 cw scores = Inr s1"
      and run: "score_feats A weights_table feats s1 = Inr scores'"
      by (auto split: sum.splits)
    note a = add_class_weights_frame [OF s1] and b = Cons.IH [OF run]
    show ?thesis
      using a b Some by auto
  qed
qed

text \<open>
  C2. The weights table holds exactly the key 42, with the vector (3, 1.5), (7, -2.0)
  and its end marker; the score buffer has 10 zeros. Scoring the one feature
  (key 42, value 2.0) in float arithmetic gives 3.0 at index 3, -4.0 at index 7 and 0.0 at
  every other index. The marker of a vector in memory is -1 when training built it and
  -2 when \<open>load\<close> did: the result is the same for both.
\<close>

theorem set_scores_scenario:
  "set_scores ieee32
     [(42, Some [\<lparr>key = 3, val = 0x3FC00000\<rparr>, \<lparr>key = 7, val = 0xC0000000\<rparr>,
                 \<lparr>key = - 1, val = 0\<rparr>])]
     (replicate 10 0) [\<lparr>FeatureC.key = 42, val = 0x40000000\<rparr>] 1
     = Inr [0, 0, 0, 0x40400000, 0, 0, 0, 0xC0800000, 0, 0] \<and>
   set_scores ieee32
     [(42, Some [\<lparr>key = 3, val = 0x3FC00000\<rparr>, \<lparr>key = 7, val = 0xC0000000\<rparr>,
                 \<lparr>key = - 2, val = 0\<rparr>])]
     (replicate 10 0) [\<lparr>FeatureC.key = 42, val = 0x40000000\<rparr>] 1
     = Inr [0, 0, 0, 0x40400000, 0, 0, 0, 0xC0800000, 0, 0]"
  by (simp add: set_scores_def map_get_def ieee32_def f32_mul_1_5_2 f32_mul_m2_2
      f32_add_0_3 f32_add_0_m4 list_eval)

text \<open>
  C3. When no key of the features read by the call has a vector in the weights table
  (the key is not in the table, or it holds the address 0), \<open>set_scores\<close> returns
  without failing and the score buffer is what it was before the call, whatever it
  held, zeros included, and whatever the arithmetic of weights is.
\<close>

theorem set_scores_absent:
  assumes "\<forall>feat \<in> set feats. map_get weights_table (FeatureC.key feat) = None"
    and "nr_feat \<le> int (length feats)"
  shows "set_scores A weights_table scores feats nr_feat = Inr scores"
proof -
  have "\<forall>feat \<in> set (take (nat nr_feat) feats).
          map_get weights_table (FeatureC.key feat) = None"
    using assms(1) by (meson in_set_takeD)
  then show ?thesis
    using assms(2) by (simp add: set_scores_def score_feats_absent)
qed

theorem set_scores_absent_witness:
  "map_get [(42, Some [\<lparr>key = 3, val = 0x3FC00000\<rparr>, \<lparr>key = - 1, val = 0\<rparr>]), (9, None)]
     (7 :: feat_t) = None \<and>
   set_scores ieee32
     [(42, Some [\<lparr>key = 3, val = 0x3FC00000\<rparr>, \<lparr>key = - 1, val = 0\<rparr>]), (9, None)]
     [0, 0, 0, 0]
     [\<lparr>FeatureC.key = 7, val = 0x40000000\<rparr>, \<lparr>FeatureC.key = 9, val = 0x40000000\<rparr>] 2
     = Inr [0, 0, 0, 0]"
  using set_scores_absent [of
      "[\<lparr>FeatureC.key = 7, val = 0x40000000\<rparr>, \<lparr>FeatureC.key = 9, val = 0x40000000\<rparr>]"
      "[(42, Some [\<lparr>key = 3, val = 0x3FC00000\<rparr>, \<lparr>key = - 1, val = 0\<rparr>]), (9, None)]"
      2 ieee32 "[0, 0, 0, 0]"]
  by (simp add: map_get_def)

text \<open>
  C10. Whatever the score buffer holds before the call, a call of \<open>set_scores\<close> that
  returns keeps the length of the buffer and leaves unchanged every element whose index
  is not a class id of the vector of a feature that the call read and that the table
  holds; the class ids of a vector are the keys before its first negative key.
\<close>

theorem set_scores_frame:
  assumes "set_scores A weights_table scores feats nr_feat = Inr scores'"
  shows "length scores' = length scores \<and>
    (\<forall>c. (\<forall>feat \<in> set (take (nat nr_feat) feats). \<forall>cw.
             map_get weights_table (FeatureC.key feat) = Some cw \<longrightarrow> c \<notin> class_ids cw)
         \<longrightarrow> scores' ! c = scores ! c)"
  using assms score_feats_frame [of A weights_table "take (nat nr_feat) feats" scores scores']
  by (simp add: set_scores_def split: if_splits)

theorem set_scores_frame_witness:
  "set_scores \<lparr>mul = (*), add = (+), sub = (-), one = 1\<rparr>
     [(42, Some [\<lparr>key = 3, val = 2\<rparr>, \<lparr>key = - 1, val = 0\<rparr>])]
     [10, 20, 30, 40, 50 :: int] [\<lparr>FeatureC.key = 42, val = 5\<rparr>] 1
     = Inr [10, 20, 30, 50, 50] \<and>
   length [10, 20, 30, 50, 50 :: int] = length [10, 20, 30, 40, 50 :: int] \<and>
   [10, 20, 30, 50, 50 :: int] ! 4 = [10, 20, 30, 40, 50] ! 4"
proof -
  let ?wt = "[(42, Some [\<lparr>key = 3, val = 2 :: int\<rparr>, \<lparr>key = - 1, val = 0\<rparr>])]"
  let ?feats = "[\<lparr>FeatureC.key = 42, val = 5 :: int\<rparr>]"
  have run: "set_scores \<lparr>mul = (*), add = (+), sub = (-), one = 1\<rparr> ?wt [10, 20, 30, 40, 50] ?feats 1
     = Inr [10, 20, 30, 50, 50]"
    by (simp add: set_scores_def map_get_def list_eval)
  have ids: "class_ids [\<lparr>key = 3, val = 2 :: int\<rparr>, \<lparr>key = - 1, val = 0\<rparr>] = {3}"
    by (simp add: class_ids_def live_def)
  have untouched: "\<forall>feat \<in> set (take (nat 1) ?feats). \<forall>cw.
      map_get ?wt (FeatureC.key feat) = Some cw \<longrightarrow> 4 \<notin> class_ids cw"
    using ids by (auto simp: map_get_def)
  from set_scores_frame [OF run] untouched
  have "[10, 20, 30, 50, 50 :: int] ! 4 = [10, 20, 30, 40, 50] ! 4"
    by blast
  with run set_scores_frame [OF run] show ?thesis by blast
qed

subsection \<open>The codec\<close>

lemma length_le_bytes: "length (le_bytes n x) = n"
  by (induction n arbitrary: x) simp_all

lemma le_nat_le_bytes: "x < 256 ^ n \<Longrightarrow> le_nat (le_bytes n x) = x"
proof (induction n arbitrary: x)
  case 0
  then show ?case by simp
next
  case (Suc n)
  have "x div 256 < 256 ^ n"
    using Suc.prems by (simp add: less_mult_imp_div_less mult.commute)
  then have "le_nat (le_bytes n (x div 256)) = x div 256"
    by (rule Suc.IH)
  moreover have "unat (word_of_nat (x mod 256) :: byte) = x mod 256"
    by (simp add: unat_of_nat)
  ultimately show ?case by simp
qed

lemma length_word_bytes: "length (word_bytes (w :: 'a::len word)) = LENGTH('a) div 8"
  by (simp add: word_bytes_def length_le_bytes)

lemma bytes_word_word_bytes:
  assumes "8 dvd LENGTH('a::len)"
  shows "bytes_word (word_bytes (w :: 'a word)) = w"
proof -
  from assms obtain k where k: "LENGTH('a) = 8 * k" by (elim dvdE)
  have "unat w < 2 ^ LENGTH('a)" by (rule unsigned_less)
  also have "(2::nat) ^ LENGTH('a) = 256 ^ (LENGTH('a) div 8)"
    by (simp add: k power_mult)
  finally have "le_nat (le_bytes (LENGTH('a) div 8) (unat w)) = unat w"
    by (rule le_nat_le_bytes)
  then show ?thesis by (simp add: bytes_word_def word_bytes_def)
qed

lemma bytes_word_32 [simp]: "bytes_word (word_bytes (w :: 32 word)) = w"
  by (rule bytes_word_word_bytes) simp

lemma bytes_word_64 [simp]: "bytes_word (word_bytes (w :: 64 word)) = w"
  by (rule bytes_word_word_bytes) simp

lemma length_word_bytes_32 [simp]: "length (word_bytes (w :: 32 word)) = 4"
  by (simp add: length_word_bytes)

lemma length_word_bytes_64 [simp]: "length (word_bytes (w :: 64 word)) = 8"
  by (simp add: length_word_bytes)

lemma file_write_Inr:
  "file_write data fp = Inr fp' \<longleftrightarrow>
   length data \<le> wroom fp \<and>
   fp' = fp\<lparr>wbytes := wbytes fp @ data, wroom := wroom fp - length data\<rparr>"
  by (auto simp: file_write_def fwrite_def)

lemma length_entry_bytes [simp]: "length (entry_bytes e) = 8"
  by (simp add: entry_bytes_def)

lemma length_concat_entry_bytes [simp]:
  "length (concat (map entry_bytes es)) = 8 * length es"
  by (induction es) simp_all

lemma file_write_eq:
  "file_write data fp =
     (if length data \<le> wroom fp
      then Inr (fp\<lparr>wbytes := wbytes fp @ data, wroom := wroom fp - length data\<rparr>)
      else Inl AssertionError)"
  by (simp add: file_write_def fwrite_def)

lemma write_entries_eq:
  "write_entries es fp =
     (if 8 * length es \<le> wroom fp
      then Inr (fp\<lparr>wbytes := wbytes fp @ concat (map entry_bytes es),
                    wroom := wroom fp - 8 * length es\<rparr>)
      else Inl AssertionError)"
proof (induction es arbitrary: fp)
  case Nil
  show ?case by simp
next
  case (Cons e es)
  show ?case
    by (auto simp: file_write_eq Cons.IH entry_bytes_def)
qed

lemma scan_length_eq:
  "i \<le> 2 ^ 31 - 1 \<Longrightarrow>
   scan_length i v =
     (if length (live v) < length v \<and> i + length (live v) \<le> 2 ^ 31 - 1
      then Inr (i + length (live v)) else Inl UndefinedBehaviour)"
proof (induction v arbitrary: i)
  case Nil
  show ?case by (simp add: live_def)
next
  case (Cons e es)
  show ?case
  proof (cases "0 \<le> sint (key e)")
    case False
    then show ?thesis using Cons.prems by (simp add: live_def)
  next
    case True
    then have l: "live (e # es) = e # live es" by (simp add: live_def)
    show ?thesis
    proof (cases "i < 2 ^ 31 - 1")
      case False
      then show ?thesis using True by (simp add: l)
    next
      case lt: True
      then have "i + 1 \<le> 2 ^ 31 - 1" by simp
      from Cons.IH [OF this] show ?thesis
        using True lt by (simp add: l)
    qed
  qed
qed

lemma scan_length_0:
  "scan_length 0 v =
     (if length (live v) < length v \<and> length (live v) < 2 ^ 31
      then Inr (length (live v)) else Inl UndefinedBehaviour)"
proof -
  have "(length (live v) \<le> 2 ^ 31 - 1) = (length (live v) < 2 ^ 31)" by auto
  then show ?thesis using scan_length_eq [of 0 v] by simp
qed

lemma take_live: "take (length (live v)) v = live v"
  unfolding live_def by (induction v) simp_all

lemma insort_cmp_key:
  "insort_cmp SparseArray_cmp x ys = insort_key (\<lambda>e. sint (key e)) x ys"
  by (induction ys) (simp_all add: SparseArray_cmp_def)

lemma qsort_sort_key: "qsort SparseArray_cmp xs = sort_key (\<lambda>e. sint (key e)) xs"
  by (induction xs) (simp_all add: qsort_def insort_cmp_key)

lemma length_qsort [simp]: "length (qsort SparseArray_cmp xs) = length xs"
  by (simp add: qsort_sort_key)

lemma mset_qsort [simp]: "mset (qsort SparseArray_cmp xs) = mset xs"
  by (simp add: qsort_sort_key)

lemma sorted_qsort: "sorted (map (\<lambda>e. sint (key e)) (qsort SparseArray_cmp xs))"
  by (simp add: qsort_sort_key)

lemma Writer_write_eq:
  "Writer_write w feat_id (Some v) =
     (if length (live v) < length v \<and> length (live v) < 2 ^ 31 \<and>
         12 + 8 * length (live v) \<le> wroom (w_fp w)
      then Inr (w\<lparr>w_fp := (w_fp w)
                  \<lparr>wbytes := wbytes (w_fp w)
                      @ record_bytes feat_id (qsort SparseArray_cmp (live v)),
                   wroom := wroom (w_fp w) - (12 + 8 * length (live v))\<rparr>\<rparr>,
                Some (qsort SparseArray_cmp (live v) @ drop (length (live v)) v))
      else if 8 \<le> wroom (w_fp w) \<and>
              \<not> (length (live v) < length v \<and> length (live v) < 2 ^ 31)
           then Inl UndefinedBehaviour
           else Inl AssertionError)"
  by (auto simp: Writer_write_def file_write_eq scan_length_0 write_entries_eq Let_def
      take_live record_bytes_def)

lemma records_bytes_simps [simp]:
  "records_bytes [] = []"
  "records_bytes ((k, es) # recs) = record_bytes k es @ records_bytes recs"
  by (simp_all add: records_bytes_def)

lemma dump_items_Inr:
  "dump_items w items = Inr (w', items') \<Longrightarrow>
   wbytes (w_fp w') = wbytes (w_fp w) @ records_bytes (file_records items) \<and>
   wpath (w_fp w') = wpath (w_fp w) \<and> w_nr_class w' = w_nr_class w \<and>
   (\<forall>(k, es) \<in> set (file_records items). length es < 2 ^ 31)"
proof (induction items arbitrary: w items')
  case Nil
  then show ?case by simp
next
  case (Cons item items)
  obtain k feat_addr where item: "item = (k, feat_addr)" by (cases item)
  show ?case
  proof (cases feat_addr)
    case None
    with Cons.prems item obtain items2 where "dump_items w items = Inr (w', items2)"
      by (auto split: sum.splits)
    from Cons.IH [OF this] show ?thesis by (simp add: item None)
  next
    case (Some v)
    with Cons.prems item obtain w1 feat' items2 where
      a: "Writer_write w k (Some v) = Inr (w1, feat')"
      and b: "dump_items w1 items = Inr (w', items2)"
      by (auto split: sum.splits)
    from a have ok: "length (live v) < 2 ^ 31"
      and w1: "w1 = w\<lparr>w_fp := (w_fp w)
                  \<lparr>wbytes := wbytes (w_fp w)
                      @ record_bytes k (qsort SparseArray_cmp (live v)),
                   wroom := wroom (w_fp w) - (12 + 8 * length (live v))\<rparr>\<rparr>"
      by (simp_all add: Writer_write_eq split: if_splits)
    from Cons.IH [OF b] show ?thesis
      using ok by (simp add: item Some w1)
  qed
qed

lemma fread_eq:
  "\<not> eof fp \<Longrightarrow> fread n fp =
     (if n \<le> length (rest fp)
      then (1, take n (rest fp), fp\<lparr>rest := drop n (rest fp)\<rparr>)
      else (0, rest fp, fp\<lparr>rest := [], eof := True\<rparr>))"
  by (simp add: fread_def)

lemma fread_eof: "eof fp \<Longrightarrow> fread n fp = (0, [], fp)"
  by (simp add: fread_def)

lemma read_entries_eq:
  "\<not> eof fp \<Longrightarrow> read_entries n fp =
     (if 8 * n \<le> length (rest fp)
      then Inr (bytes_entries n (rest fp), fp\<lparr>rest := drop (8 * n) (rest fp)\<rparr>)
      else Inl AssertionError)"
proof (induction n arbitrary: fp)
  case 0
  show ?case by simp
next
  case (Suc n)
  then show ?case
    by (auto simp: fread_eq add.commute)
qed

lemma Reader_read_eof: "eof (r_fp rd) \<Longrightarrow> Reader_read rd = Inr (0, None, rd)"
  by (simp add: Reader_read_def fread_eof)

lemma Reader_read_eq:
  "\<not> eof (r_fp rd) \<Longrightarrow> Reader_read rd =
     (let bs = rest (r_fp rd); len = (bytes_word (take 4 (drop 8 bs)) :: int32_t)
      in if length bs < 8
         then Inr (0, None, rd\<lparr>r_fp := (r_fp rd)\<lparr>rest := [], eof := True\<rparr>\<rparr>)
         else if length bs < 12 then Inl AssertionError
         else if 2 ^ 31 - 1 < sint len + 1 \<or> sint len < 0 then Inl UndefinedBehaviour
         else if length bs < 12 + 8 * nat (sint len) then Inl AssertionError
         else Inr (1,
                   Some (bytes_word (take 8 bs),
                         bytes_entries (nat (sint len)) (drop 12 bs) @ [\<lparr>key = - 2, val = 0\<rparr>]),
                   rd\<lparr>r_fp := (r_fp rd)\<lparr>rest := drop (12 + 8 * nat (sint len)) bs\<rparr>\<rparr>))"
  by (auto simp: Reader_read_def fread_eq read_entries_eq feof_def Let_def add.commute)

lemma bytes_entries_entry_bytes:
  "bytes_entries (length es) (concat (map entry_bytes es) @ bs) = es"
  by (induction es) (simp_all add: entry_bytes_def)

lemma sint_length_32: "n < 2 ^ 31 \<Longrightarrow> sint (word_of_nat n :: int32_t) = int n"
proof -
  assume "n < 2 ^ 31"
  then have "int n < 2 ^ 31" by (metis of_nat_less_numeral_power_cancel_iff)
  then show ?thesis
    by (simp add: signed_of_nat signed_take_bit_int_eq_self)
qed

lemma length_record_bytes [simp]: "length (record_bytes k es) = 12 + 8 * length es"
  by (simp add: record_bytes_def)

lemma Reader_read_record:
  assumes "length es < 2 ^ 31 - 1" and "rest (r_fp rd) = record_bytes k es @ bs"
    and "\<not> eof (r_fp rd)"
  shows "Reader_read rd =
    Inr (1, Some (k, es @ [\<lparr>key = - 2, val = 0\<rparr>]), rd\<lparr>r_fp := (r_fp rd)\<lparr>rest := bs\<rparr>\<rparr>)"
proof -
  from assms(1) have less: "length es < 2 ^ 31" by simp
  let ?bs = "rest (r_fp rd)"
  have id: "take 8 ?bs = word_bytes k"
    and len: "take 4 (drop 8 ?bs) = word_bytes (word_of_nat (length es) :: int32_t)"
    and ent: "drop 12 ?bs = concat (map entry_bytes es) @ bs"
    and tl: "drop (12 + 8 * length es) ?bs = bs"
    and n: "length ?bs = 12 + 8 * length es + length bs"
    by (simp_all add: assms(2) record_bytes_def)
  show ?thesis
    unfolding Reader_read_eq [OF assms(3)] Let_def id len ent
    using assms(1) by (simp add: sint_length_32 [OF less] n tl bytes_entries_entry_bytes)
qed

lemma load_loop_records:
  "\<forall>(k, es) \<in> set recs. length es < 2 ^ 31 - 1 \<Longrightarrow>
   rest (r_fp rd) = records_bytes recs \<Longrightarrow> \<not> eof (r_fp rd) \<Longrightarrow>
   load_loop rd weights =
     Inr (foldl (\<lambda>ws (k, es). map_set ws k (Some (es @ [\<lparr>key = - 2, val = 0\<rparr>]))) weights recs,
          rd\<lparr>r_fp := (r_fp rd)\<lparr>rest := [], eof := True\<rparr>\<rparr>)"
proof (induction recs arbitrary: rd weights)
  case Nil
  then have "Reader_read rd = Inr (0, None, rd\<lparr>r_fp := (r_fp rd)\<lparr>rest := [], eof := True\<rparr>\<rparr>)"
    by (simp add: Reader_read_eq)
  then show ?case by (simp add: load_loop.simps [of rd])
next
  case (Cons r recs)
  obtain k es where r: "r = (k, es)" by (cases r)
  let ?rd = "rd\<lparr>r_fp := (r_fp rd)\<lparr>rest := records_bytes recs\<rparr>\<rparr>"
  have "length es < 2 ^ 31 - 1" using Cons.prems(1) r by simp
  moreover have "rest (r_fp rd) = record_bytes k es @ records_bytes recs"
    using Cons.prems(2) r by simp
  ultimately have rd: "Reader_read rd =
      Inr (1, Some (k, es @ [\<lparr>key = - 2, val = 0\<rparr>]), ?rd)"
    using Cons.prems(3) by (rule Reader_read_record)
  have "load_loop ?rd (map_set weights k (Some (es @ [\<lparr>key = - 2, val = 0\<rparr>]))) =
     Inr (foldl (\<lambda>ws (k, es). map_set ws k (Some (es @ [\<lparr>key = - 2, val = 0\<rparr>])))
            (map_set weights k (Some (es @ [\<lparr>key = - 2, val = 0\<rparr>]))) recs,
          ?rd\<lparr>r_fp := (r_fp ?rd)\<lparr>rest := [], eof := True\<rparr>\<rparr>)"
    using Cons.prems by (intro Cons.IH) simp_all
  then show ?case
    by (simp add: load_loop.simps [of rd] rd r)
qed

lemma map_set_fresh: "k \<notin> fst ` set ws \<Longrightarrow> map_set ws k v = ws @ [(k, v)]"
  by (induction ws) auto

lemma foldl_map_set_distinct:
  "distinct (map fst recs) \<Longrightarrow> fst ` set ws \<inter> fst ` set recs = {} \<Longrightarrow>
   foldl (\<lambda>ws (k, es). map_set ws k (f es)) ws recs = ws @ map (\<lambda>(k, es). (k, f es)) recs"
proof (induction recs arbitrary: ws)
  case Nil
  show ?case by simp
next
  case (Cons r recs)
  obtain k es where r: "r = (k, es)" by (cases r)
  have fresh: "k \<notin> fst ` set ws" using Cons.prems(2) r by auto
  have "foldl (\<lambda>ws (k, es). map_set ws k (f es)) (ws @ [(k, f es)]) recs
      = (ws @ [(k, f es)]) @ map (\<lambda>(k, es). (k, f es)) recs"
  proof (rule Cons.IH)
    show "distinct (map fst recs)" using Cons.prems(1) by simp
    show "fst ` set (ws @ [(k, f es)]) \<inter> fst ` set recs = {}"
      using Cons.prems r by (auto simp: image_iff)
  qed
  then show ?case by (simp add: r map_set_fresh [OF fresh])
qed

lemma file_records_set:
  "(k, es) \<in> set (file_records items) \<longleftrightarrow>
   (\<exists>v. (k, Some v) \<in> set items \<and> es = qsort SparseArray_cmp (live v))"
  by (induction items rule: file_records.induct) auto

lemma file_records_keys:
  "fst ` set (file_records items) = {k. \<exists>v. (k, Some v) \<in> set items}"
  by (induction items rule: file_records.induct) auto

lemma distinct_file_records:
  "distinct (map fst items) \<Longrightarrow> distinct (map fst (file_records items))"
  by (induction items rule: file_records.induct) (force simp: file_records_set image_iff)+

lemma Writer_init_Inr:
  "Writer_init fs loc nr_class = Inr w \<Longrightarrow>
   - (2 ^ 31) \<le> nr_class \<and> nr_class < 2 ^ 31 \<and> \<not> fopen_null fs loc \<and>
   nodes fs loc \<noteq> Some Directory \<and>
   w = \<lparr>w_fp = \<lparr>wpath = loc, wbytes = word_bytes (word_of_int nr_class :: class_t),
                 wroom = free_space fs - 4\<rparr>,
        w_nr_class = word_of_int nr_class\<rparr>"
  by (auto simp: Writer_init_def fopen_wb_def file_write_eq split: if_splits option.splits)

lemma dump_Inr:
  assumes "dump fs weights nr_class loc = Inr (fs', weights')"
  shows "- (2 ^ 31) \<le> nr_class \<and> nr_class < 2 ^ 31 \<and> \<not> fopen_null fs' loc \<and>
    nodes fs' loc = Some (File (word_bytes (word_of_int nr_class :: class_t)
                                  @ records_bytes (file_records weights))) \<and>
    (\<forall>(k, es) \<in> set (file_records weights). length es < 2 ^ 31)"
proof -
  from assms obtain w w' where
    a: "Writer_init fs loc nr_class = Inr w"
    and b: "dump_items w weights = Inr (w', weights')"
    and c: "Writer_close fs w' = Inr fs'"
    by (auto simp: dump_def split: sum.splits)
  note a' = Writer_init_Inr [OF a] and b' = dump_items_Inr [OF b]
  from c have "fs' = fs\<lparr>nodes := (nodes fs)(wpath (w_fp w') \<mapsto> File (wbytes (w_fp w'))),
                        free_space := wroom (w_fp w')\<rparr>"
    by (auto simp: Writer_close_def fclose_def split: if_splits)
  then show ?thesis
    using a' b' by simp
qed

lemma sint_class_count:
  "- (2 ^ 31) \<le> n \<Longrightarrow> n < 2 ^ 31 \<Longrightarrow> sint (word_of_int n :: class_t) = n"
  by (simp add: signed_of_int signed_take_bit_int_eq_self)

lemma load_file:
  assumes "nodes fs loc = Some (File (word_bytes (c :: class_t) @ records_bytes recs))"
    and "\<not> fopen_null fs loc"
    and "\<forall>(k, es) \<in> set recs. length es < 2 ^ 31 - 1"
  shows "load fs weights loc =
    Inr (foldl (\<lambda>ws (k, es). map_set ws k (Some (es @ [\<lparr>key = - 2, val = 0\<rparr>]))) weights recs,
         sint c)"
proof -
  have init: "Reader_new fs loc =
      Inr \<lparr>r_fp = \<lparr>rest = records_bytes recs, eof = False\<rparr>, r_nr_class = c\<rparr>"
    using assms(1,2)
    by (simp add: Reader_new_def Reader_init_def path_exists_def path_isdir_def fopen_rb_def
        fread_eq)
  have "load_loop \<lparr>r_fp = \<lparr>rest = records_bytes recs, eof = False\<rparr>, r_nr_class = c\<rparr> weights =
      Inr (foldl (\<lambda>ws (k, es). map_set ws k (Some (es @ [\<lparr>key = - 2, val = 0\<rparr>]))) weights recs,
           \<lparr>r_fp = \<lparr>rest = [], eof = True\<rparr>, r_nr_class = c\<rparr>)"
    using load_loop_records [OF assms(3), of
        "\<lparr>r_fp = \<lparr>rest = records_bytes recs, eof = False\<rparr>, r_nr_class = c\<rparr>" weights]
    by simp
  then show ?thesis
    by (simp add: load_def init Reader_dealloc_def)
qed

subsection \<open>LinearModel.dump and LinearModel.load\<close>

lemma le_bytes_numeral:
  "le_bytes (numeral k) x = word_of_nat (x mod 256) # le_bytes (pred_numeral k) (x div 256)"
  by (simp add: numeral_eq_Suc [of k])

lemma word_bytes_5: "word_bytes (5 :: class_t) = [5, 0, 0, 0]"
  by (simp add: word_bytes_def le_bytes_numeral)

text \<open>
  \<open>dump\<close> returns when the file can be opened and closed, the class count fits
  \<^verbatim>\<open>class_t\<close>, every vector of the table has a negative key before its end, and the
  device has room for the file.
\<close>

lemma dump_items_succeeds:
  assumes "\<forall>(k, feat) \<in> set items. \<forall>v. feat = Some v \<longrightarrow>
             length (live v) < length v \<and> length (live v) < 2 ^ 31"
    and "length (records_bytes (file_records items)) \<le> wroom (w_fp w)"
  shows "\<exists>w' items'. dump_items w items = Inr (w', items')"
  using assms
proof (induction items arbitrary: w)
  case Nil
  show ?case by simp
next
  case (Cons item items)
  obtain k feat where item: "item = (k, feat)" by (cases item)
  show ?case
  proof (cases feat)
    case None
    from Cons.prems have "\<exists>w' items'. dump_items w items = Inr (w', items')"
      by (intro Cons.IH) (simp_all add: item None)
    then show ?thesis by (auto simp: item None)
  next
    case (Some v)
    let ?n = "length (live v)"
    let ?w1 = "w\<lparr>w_fp := (w_fp w)
          \<lparr>wbytes := wbytes (w_fp w) @ record_bytes k (qsort SparseArray_cmp (live v)),
           wroom := wroom (w_fp w) - (12 + 8 * ?n)\<rparr>\<rparr>"
    from Cons.prems have ok: "?n < length v" "?n < 2 ^ 31"
      and room: "12 + 8 * ?n + length (records_bytes (file_records items)) \<le> wroom (w_fp w)"
      by (simp_all add: item Some)
    then have a: "Writer_write w k (Some v)
        = Inr (?w1, Some (qsort SparseArray_cmp (live v) @ drop ?n v))"
      by (simp add: Writer_write_eq)
    have "\<exists>w' items'. dump_items ?w1 items = Inr (w', items')"
      using Cons.prems(1) room by (intro Cons.IH) (simp_all add: item)
    then show ?thesis
      by (auto simp: item Some a)
  qed
qed

lemma dump_succeeds:
  assumes "nodes fs loc \<noteq> Some Directory" and "\<not> fopen_null fs loc"
    and "fclose_status fs = 0"
    and "- (2 ^ 31) \<le> nr_class" and "nr_class < 2 ^ 31"
    and "\<forall>(k, feat) \<in> set weights. \<forall>v. feat = Some v \<longrightarrow>
           length (live v) < length v \<and> length (live v) < 2 ^ 31"
    and "4 + length (records_bytes (file_records weights)) \<le> free_space fs"
  shows "\<exists>fs' weights'. dump fs weights nr_class loc = Inr (fs', weights')"
proof -
  let ?w = "\<lparr>w_fp = \<lparr>wpath = loc, wbytes = word_bytes (word_of_int nr_class :: class_t),
                       wroom = free_space fs - 4\<rparr>,
             w_nr_class = word_of_int nr_class\<rparr>"
  have init: "Writer_init fs loc nr_class = Inr ?w"
    using assms by (simp add: Writer_init_def path_isdir_def fopen_wb_def file_write_eq)
  have "length (records_bytes (file_records weights)) \<le> wroom (w_fp ?w)"
    using assms(7) by simp
  with assms(6) obtain w' weights' where items: "dump_items ?w weights = Inr (w', weights')"
    using dump_items_succeeds by blast
  show ?thesis
    using assms(3) by (simp add: dump_def init items Writer_close_def fclose_def)
qed

lemma load_dumped:
  assumes "distinct (map fst weights)"
    and "dump fs weights nr_class loc = Inr (fs', weights')"
    and "\<forall>(k, feat) \<in> set weights. \<forall>v. feat = Some v \<longrightarrow> length (live v) < 2 ^ 31 - 1"
  shows "\<exists>loaded. load fs' [] loc = Inr (loaded, nr_class) \<and>
      fst ` set loaded = {k. \<exists>v. (k, Some v) \<in> set weights} \<and>
      (\<forall>k v. (k, Some v) \<in> set weights \<longrightarrow>
         (\<exists>es. map_get loaded k = Some (es @ [\<lparr>key = - 2, val = 0\<rparr>]) \<and>
               mset es = mset (live v) \<and> sorted (map (\<lambda>e. sint (key e)) es)))"
proof -
  let ?recs = "file_records weights"
  let ?f = "\<lambda>es. Some (es @ [\<lparr>key = - 2, val = (0 :: weight_t)\<rparr>])"
  let ?loaded = "map (\<lambda>(k, es). (k, ?f es)) ?recs"
  note d = dump_Inr [OF assms(2)]
  have dist: "distinct (map fst ?recs)"
    using assms(1) by (rule distinct_file_records)
  have small: "\<forall>(k, es) \<in> set ?recs. length es < 2 ^ 31 - 1"
    using assms(3) by (fastforce simp: file_records_set)
  have "load fs' [] loc = Inr (foldl (\<lambda>ws (k, es). map_set ws k (?f es)) [] ?recs,
      sint (word_of_int nr_class :: class_t))"
    using d small by (intro load_file) simp_all
  moreover have "foldl (\<lambda>ws (k, es). map_set ws k (?f es)) [] ?recs = [] @ ?loaded"
    using dist by (intro foldl_map_set_distinct) simp_all
  ultimately have ld: "load fs' [] loc = Inr (?loaded, nr_class)"
    using d by (simp add: sint_class_count)
  have "fst ` set ?loaded = fst ` set ?recs"
    by (force simp: image_iff)
  also have "\<dots> = {k. \<exists>v. (k, Some v) \<in> set weights}"
    by (rule file_records_keys)
  finally have keys: "fst ` set ?loaded = {k. \<exists>v. (k, Some v) \<in> set weights}" .
  have dist': "distinct (map fst ?loaded)"
    using dist by (simp add: comp_def case_prod_unfold)
  have vecs: "\<exists>es. map_get ?loaded k = Some (es @ [\<lparr>key = - 2, val = 0\<rparr>]) \<and>
               mset es = mset (live v) \<and> sorted (map (\<lambda>e. sint (key e)) es)"
    if "(k, Some v) \<in> set weights" for k v
  proof -
    from that have "(k, qsort SparseArray_cmp (live v)) \<in> set ?recs"
      by (auto simp: file_records_set)
    then have "(k, ?f (qsort SparseArray_cmp (live v))) \<in> set ?loaded"
      by force
    with dist' have "map_of ?loaded k = Some (?f (qsort SparseArray_cmp (live v)))"
      by (rule map_of_is_SomeI)
    then have "map_get ?loaded k = Some (qsort SparseArray_cmp (live v) @ [\<lparr>key = - 2, val = 0\<rparr>])"
      by (simp add: map_get_def)
    then show ?thesis
      using sorted_qsort by auto
  qed
  show ?thesis
    using ld keys vecs by blast
qed

lemma word_bytes_10: "word_bytes (10 :: class_t) = [10, 0, 0, 0]"
  by (simp add: word_bytes_def le_bytes_numeral)

lemma record_bytes_42_two:
  "record_bytes 42 [\<lparr>key = 3, val = 0x3FC00000\<rparr>, \<lparr>key = 7, val = 0xC0000000\<rparr>]
     = [42, 0, 0, 0, 0, 0, 0, 0, 2, 0, 0, 0,
        3, 0, 0, 0, 0, 0, 0xC0, 0x3F, 7, 0, 0, 0, 0, 0, 0, 0xC0]"
  by (simp add: record_bytes_def entry_bytes_def word_bytes_def le_bytes_numeral)

text \<open>
  C1. The weights table holds each key once, as a \<^verbatim>\<open>PreshMap\<close> does, and every vector
  in it has an entry with a negative key, after fewer than \<open>2^31 - 1\<close> entries (the
  length field is an \<^verbatim>\<open>int32_t\<close>, and the reader allocates one entry more). The path
  is not a directory, the file can be opened and closed, the class count fits
  \<^verbatim>\<open>class_t\<close>, and the device has room for the file: 4 bytes, and \<open>12 + 8 * L\<close> for
  each vector with \<open>L\<close> entries before its first negative key. Then \<open>dump\<close> of the
  table and the class count returns, and \<open>load\<close> of the file it produced, into a new
  model, returns the same class count; the table it builds has exactly the keys whose
  address was not 0 in the dumped table; each of them maps to a vector with the same
  (class id, weight) pairs as the entries before the first negative key of the dumped
  vector, in ascending order of class id, followed by the marker with key -2 and weight
  0. The witness dumps the vector \<open>[(7, -2.0), (3, 1.5)]\<close> under the key 42, next to a
  key without a vector, with class count 10, and loads \<open>[(3, 1.5), (7, -2.0)]\<close> under
  42, with the marker, and 10; it also runs the second scenario of the spec: class count
  5 and a table without entries give a file of the four bytes of 5, and \<open>load\<close> of it
  returns an empty table and 5.
\<close>

theorem dump_load_roundtrip:
  assumes "distinct (map fst weights)"
    and "nodes fs loc \<noteq> Some Directory" and "\<not> fopen_null fs loc"
    and "fclose_status fs = 0"
    and "- (2 ^ 31) \<le> nr_class" and "nr_class < 2 ^ 31"
    and "\<forall>(k, feat) \<in> set weights. \<forall>v. feat = Some v \<longrightarrow>
           length (live v) < length v \<and> length (live v) < 2 ^ 31 - 1"
    and "4 + length (records_bytes (file_records weights)) \<le> free_space fs"
  shows "\<exists>fs' weights' loaded.
      dump fs weights nr_class loc = Inr (fs', weights') \<and>
      load fs' [] loc = Inr (loaded, nr_class) \<and>
      fst ` set loaded = {k. \<exists>v. (k, Some v) \<in> set weights} \<and>
      (\<forall>k v. (k, Some v) \<in> set weights \<longrightarrow>
         (\<exists>es. map_get loaded k = Some (es @ [\<lparr>key = - 2, val = 0\<rparr>]) \<and>
               mset es = mset (live v) \<and> sorted (map (\<lambda>e. sint (key e)) es)))"
proof -
  have marked: "\<forall>(k, feat) \<in> set weights. \<forall>v. feat = Some v \<longrightarrow>
      length (live v) < length v \<and> length (live v) < 2 ^ 31"
    using assms(7) by fastforce
  have small: "\<forall>(k, feat) \<in> set weights. \<forall>v. feat = Some v \<longrightarrow> length (live v) < 2 ^ 31 - 1"
    using assms(7) by fastforce
  from dump_succeeds [OF assms(2-6) marked assms(8)]
  obtain fs' weights' where d: "dump fs weights nr_class loc = Inr (fs', weights')"
    by blast
  from load_dumped [OF assms(1) d small] d show ?thesis
    by blast
qed

theorem dump_load_roundtrip_witness:
  "dump \<lparr>nodes = Map.empty, fopen_null = (\<lambda>loc. False), free_space = 100, fclose_status = 0\<rparr>
     [(42, Some [\<lparr>key = 7, val = 0xC0000000\<rparr>, \<lparr>key = 3, val = 0x3FC00000\<rparr>,
                 \<lparr>key = - 1, val = 0\<rparr>]), (43, None)] 10 ''weights.bin''
   = Inr (\<lparr>nodes = [''weights.bin'' \<mapsto>
                     File [10, 0, 0, 0, 42, 0, 0, 0, 0, 0, 0, 0, 2, 0, 0, 0,
                           3, 0, 0, 0, 0, 0, 0xC0, 0x3F, 7, 0, 0, 0, 0, 0, 0, 0xC0]],
           fopen_null = (\<lambda>loc. False), free_space = 68, fclose_status = 0\<rparr>,
          [(42, Some [\<lparr>key = 3, val = 0x3FC00000\<rparr>, \<lparr>key = 7, val = 0xC0000000\<rparr>,
                      \<lparr>key = - 1, val = 0\<rparr>]), (43, None)]) \<and>
   load \<lparr>nodes = [''weights.bin'' \<mapsto>
                    File [10, 0, 0, 0, 42, 0, 0, 0, 0, 0, 0, 0, 2, 0, 0, 0,
                          3, 0, 0, 0, 0, 0, 0xC0, 0x3F, 7, 0, 0, 0, 0, 0, 0, 0xC0]],
          fopen_null = (\<lambda>loc. False), free_space = 68, fclose_status = 0\<rparr> [] ''weights.bin''
   = Inr ([(42, Some [\<lparr>key = 3, val = 0x3FC00000\<rparr>, \<lparr>key = 7, val = 0xC0000000\<rparr>,
                      \<lparr>key = - 2, val = 0\<rparr>])], 10) \<and>
   dump \<lparr>nodes = Map.empty, fopen_null = (\<lambda>loc. False), free_space = 100, fclose_status = 0\<rparr>
     [] 5 ''weights.bin''
   = Inr (\<lparr>nodes = [''weights.bin'' \<mapsto> File [5, 0, 0, 0]], fopen_null = (\<lambda>loc. False),
           free_space = 96, fclose_status = 0\<rparr>, []) \<and>
   load \<lparr>nodes = [''weights.bin'' \<mapsto> File [5, 0, 0, 0]], fopen_null = (\<lambda>loc. False),
          free_space = 96, fclose_status = 0\<rparr> [] ''weights.bin''
   = Inr ([], 5)"
proof -
  let ?fs = "\<lparr>nodes = Map.empty, fopen_null = (\<lambda>loc. False), free_space = 100,
              fclose_status = 0\<rparr>"
  let ?v = "[\<lparr>key = 7, val = 0xC0000000 :: weight_t\<rparr>, \<lparr>key = 3, val = 0x3FC00000\<rparr>,
             \<lparr>key = - 1, val = 0\<rparr>]"
  let ?es = "[\<lparr>key = 3, val = 0x3FC00000 :: weight_t\<rparr>, \<lparr>key = 7, val = 0xC0000000\<rparr>]"
  let ?weights = "[(42 :: feat_t, Some ?v), (43, None)]"
  let ?fs1 = "\<lparr>nodes = [''weights.bin'' \<mapsto>
                     File [10, 0, 0, 0, 42, 0, 0, 0, 0, 0, 0, 0, 2, 0, 0, 0,
                           3, 0, 0, 0, 0, 0, 0xC0, 0x3F, 7, 0, 0, 0, 0, 0, 0, 0xC0]],
           fopen_null = (\<lambda>loc. False), free_space = 68, fclose_status = 0\<rparr>"
  let ?fs5 = "\<lparr>nodes = [''weights.bin'' \<mapsto> File [5, 0, 0, 0]], fopen_null = (\<lambda>loc. False),
           free_space = 96, fclose_status = 0\<rparr>"
  have l: "live ?v = [\<lparr>key = 7, val = 0xC0000000\<rparr>, \<lparr>key = 3, val = 0x3FC00000\<rparr>]"
    by (simp add: live_def)
  have q: "qsort SparseArray_cmp [\<lparr>key = 7, val = 0xC0000000 :: weight_t\<rparr>,
      \<lparr>key = 3, val = 0x3FC00000\<rparr>] = ?es"
    by (simp add: qsort_def SparseArray_cmp_def)
  have recs: "file_records ?weights = [(42, ?es)]"
    by (simp add: l q)
  have d: "dump ?fs ?weights 10 ''weights.bin''
      = Inr (?fs1, [(42, Some (?es @ [\<lparr>key = - 1, val = 0\<rparr>])), (43, None)])"
    unfolding dump_def Writer_init_def
    by (simp add: path_exists_def path_isdir_def fopen_wb_def file_write_eq Writer_write_eq l q
        Writer_close_def fclose_def word_bytes_10 record_bytes_42_two)
  have d5: "dump ?fs [] 5 ''weights.bin'' = Inr (?fs5, [])"
    by (simp add: dump_def Writer_init_def path_exists_def path_isdir_def fopen_wb_def
        file_write_eq Writer_close_def fclose_def word_bytes_5)
  have marked: "\<forall>(k, feat) \<in> set ?weights. \<forall>v. feat = Some v \<longrightarrow>
      length (live v) < length v \<and> length (live v) < 2 ^ 31 - 1"
    by (simp add: l)
  have room: "4 + length (records_bytes (file_records ?weights)) \<le> free_space ?fs"
    by (simp add: l)
  have "distinct (map fst ?weights)" by simp
  from dump_load_roundtrip [where loc = "''weights.bin''" and nr_class = 10,
      OF this _ _ _ _ _ marked room] d
  obtain loaded where ld: "load ?fs1 [] ''weights.bin'' = Inr (loaded, 10)"
    and keys: "fst ` set loaded = {k. \<exists>v. (k, Some v) \<in> set ?weights}"
    by auto
  have "load ?fs1 [] ''weights.bin''
      = Inr (foldl (\<lambda>ws (k, es). map_set ws k (Some (es @ [\<lparr>key = - 2, val = 0\<rparr>]))) []
               [(42, ?es)], sint (10 :: class_t))"
    by (rule load_file) (simp_all add: word_bytes_10 record_bytes_42_two)
  then have l1: "load ?fs1 [] ''weights.bin''
      = Inr ([(42, Some (?es @ [\<lparr>key = - 2, val = 0\<rparr>]))], 10)"
    by simp
  have "distinct (map fst ([] :: weight_t weights_table))" by simp
  from dump_load_roundtrip [where fs = ?fs and loc = "''weights.bin''" and nr_class = 5,
      OF this] d5
  obtain loaded5 where "load ?fs5 [] ''weights.bin'' = Inr (loaded5, 5)"
    and "fst ` set loaded5 = {}"
    by auto
  then have l5: "load ?fs5 [] ''weights.bin'' = Inr ([], 5)" by simp
  from d l1 d5 l5 show ?thesis by simp
qed

subsection \<open>The writer and the reader\<close>

lemma strict_sorted_entries:
  assumes "sorted (map (\<lambda>e. sint (key e)) es)" and "distinct (map key es)"
  shows "sorted_wrt (\<lambda>a b. sint (key a) < sint (key b)) es"
proof -
  have "distinct (map (\<lambda>e. sint (key e)) es)"
    using assms(2) by (auto simp: distinct_map inj_on_def dest: signed_word_eqI)
  with assms(1) have "sorted_wrt (<) (map (\<lambda>e. sint (key e)) es)"
    by (simp add: strict_sorted_iff)
  then show ?thesis by (simp add: sorted_wrt_map)
qed

text \<open>
  C5. A vector that is not NULL has an end marker (an entry with a negative key); the
  entries before the first one have distinct class ids (all non-negative, by the choice
  of the marker) in any order; there are fewer than \<open>2^31\<close> of them, so that the C
  int of the scan does not overflow, and the stream takes the \<open>12 + 8 * length\<close> bytes.
  Then \<open>_Writer.write\<close> returns, and it has appended to the file the feature key, the
  number of entries found by the scan as a 32-bit integer, and the entries in strictly
  ascending order of class id, key then weight; the array in memory holds the entries in
  that order too, since the sort is in place and comes before the entries are written.
\<close>

theorem Writer_write_sorted:
  assumes "length (live v) < length v"
    and "distinct (map key (live v))"
    and "length (live v) < 2 ^ 31"
    and "12 + 8 * length (live v) \<le> wroom (w_fp w)"
  shows "\<exists>es. sorted_wrt (\<lambda>a b. sint (key a) < sint (key b)) es \<and> mset es = mset (live v) \<and>
    Writer_write w feat_id (Some v) =
      Inr (w\<lparr>w_fp := (w_fp w)
               \<lparr>wbytes := wbytes (w_fp w) @ word_bytes feat_id
                   @ word_bytes (word_of_nat (length (live v)) :: int32_t)
                   @ concat (map (\<lambda>e. word_bytes (key e) @ word_bytes (val e)) es),
                wroom := wroom (w_fp w) - (12 + 8 * length (live v))\<rparr>\<rparr>,
           Some (es @ drop (length (live v)) v))"
proof -
  let ?es = "qsort SparseArray_cmp (live v)"
  have "mset (map key ?es) = mset (map key (live v))" by simp
  then have "distinct (map key ?es)"
    using assms(2) by (metis mset_eq_imp_distinct_iff)
  with sorted_qsort have "sorted_wrt (\<lambda>a b. sint (key a) < sint (key b)) ?es"
    by (rule strict_sorted_entries)
  moreover have "mset ?es = mset (live v)" by simp
  moreover have eb: "entry_bytes = (\<lambda>e. word_bytes (key e) @ word_bytes (val e))"
    by (simp add: entry_bytes_def fun_eq_iff)
  have "Writer_write w feat_id (Some v) =
      Inr (w\<lparr>w_fp := (w_fp w)
               \<lparr>wbytes := wbytes (w_fp w) @ word_bytes feat_id
                   @ word_bytes (word_of_nat (length (live v)) :: int32_t)
                   @ concat (map (\<lambda>e. word_bytes (key e) @ word_bytes (val e)) ?es),
                wroom := wroom (w_fp w) - (12 + 8 * length (live v))\<rparr>\<rparr>,
           Some (?es @ drop (length (live v)) v))"
    using assms by (simp add: Writer_write_eq record_bytes_def eb)
  ultimately show ?thesis by blast
qed

theorem Writer_write_sorted_witness:
  "(\<exists>es. sorted_wrt (\<lambda>a b. sint (key a) < sint (key b)) es \<and>
      mset es = mset [\<lparr>key = 7, val = 0xC0000000\<rparr>, \<lparr>key = 3, val = 0x3FC00000\<rparr>] \<and>
      Writer_write \<lparr>w_fp = \<lparr>wpath = ''weights.bin'', wbytes = [], wroom = 100\<rparr>, w_nr_class = 10\<rparr>
        42 (Some [\<lparr>key = 7, val = 0xC0000000\<rparr>, \<lparr>key = 3, val = 0x3FC00000\<rparr>,
                  \<lparr>key = - 1, val = 0\<rparr>]) =
      Inr (\<lparr>w_fp = \<lparr>wpath = ''weights.bin'',
                     wbytes = word_bytes (42 :: feat_t) @ word_bytes (2 :: int32_t)
                       @ concat (map (\<lambda>e. word_bytes (key e) @ word_bytes (val e)) es),
                     wroom = 72\<rparr>, w_nr_class = 10\<rparr>,
           Some (es @ [\<lparr>key = - 1, val = 0\<rparr>]))) \<and>
   Writer_write \<lparr>w_fp = \<lparr>wpath = ''weights.bin'', wbytes = [], wroom = 100\<rparr>, w_nr_class = 10\<rparr>
     42 (Some [\<lparr>key = 7, val = 0xC0000000\<rparr>, \<lparr>key = 3, val = 0x3FC00000\<rparr>,
               \<lparr>key = - 1, val = 0\<rparr>]) =
   Inr (\<lparr>w_fp = \<lparr>wpath = ''weights.bin'',
                  wbytes = word_bytes (42 :: feat_t) @ word_bytes (2 :: int32_t)
                    @ word_bytes (3 :: int32_t) @ word_bytes (0x3FC00000 :: weight_t)
                    @ word_bytes (7 :: int32_t) @ word_bytes (0xC0000000 :: weight_t),
                  wroom = 72\<rparr>, w_nr_class = 10\<rparr>,
        Some [\<lparr>key = 3, val = 0x3FC00000\<rparr>, \<lparr>key = 7, val = 0xC0000000\<rparr>,
              \<lparr>key = - 1, val = 0\<rparr>])"
proof -
  let ?v = "[\<lparr>key = 7, val = 0xC0000000 :: weight_t\<rparr>, \<lparr>key = 3, val = 0x3FC00000\<rparr>,
             \<lparr>key = - 1, val = 0\<rparr>]"
  let ?w = "\<lparr>w_fp = \<lparr>wpath = ''weights.bin'', wbytes = [], wroom = 100\<rparr>, w_nr_class = 10\<rparr>"
  have l: "live ?v = [\<lparr>key = 7, val = 0xC0000000\<rparr>, \<lparr>key = 3, val = 0x3FC00000\<rparr>]"
    by (simp add: live_def)
  have q: "qsort SparseArray_cmp (live ?v)
      = [\<lparr>key = 3, val = 0x3FC00000\<rparr>, \<lparr>key = 7, val = 0xC0000000\<rparr>]"
    by (simp add: l qsort_def SparseArray_cmp_def)
  have a: "length (live ?v) < length ?v" "distinct (map key (live ?v))"
    "length (live ?v) < 2 ^ 31" "12 + 8 * length (live ?v) \<le> wroom (w_fp ?w)"
    by (simp_all add: l)
  have b: "Writer_write ?w 42 (Some ?v) =
    Inr (\<lparr>w_fp = \<lparr>wpath = ''weights.bin'',
                  wbytes = word_bytes (42 :: feat_t) @ word_bytes (2 :: int32_t)
                    @ word_bytes (3 :: int32_t) @ word_bytes (0x3FC00000 :: weight_t)
                    @ word_bytes (7 :: int32_t) @ word_bytes (0xC0000000 :: weight_t),
                  wroom = 72\<rparr>, w_nr_class = 10\<rparr>,
        Some [\<lparr>key = 3, val = 0x3FC00000\<rparr>, \<lparr>key = 7, val = 0xC0000000\<rparr>,
              \<lparr>key = - 1, val = 0\<rparr>])"
    unfolding Writer_write_eq q by (simp add: l record_bytes_def entry_bytes_def)
  from Writer_write_sorted [OF a, of 42] b show ?thesis
    by (simp add: l)
qed

lemma length_bytes_entries [simp]: "length (bytes_entries n bs) = n"
  by (induction n arbitrary: bs) simp_all

lemma bytes_entries_nth:
  "i < n \<Longrightarrow> bytes_entries n bs ! i =
     \<lparr>key = bytes_word (take 4 (drop (8 * i) bs)),
      val = bytes_word (take 4 (drop (8 * i + 4) bs))\<rparr>"
proof (induction n arbitrary: bs i)
  case 0
  then show ?case by simp
next
  case (Suc n)
  show ?case
  proof (cases i)
    case 0
    then show ?thesis by simp
  next
    case (Suc j)
    then have "j < n" using Suc.prems by simp
    from Suc.IH [OF this, of "drop 8 bs"] show ?thesis
      by (simp add: Suc add.commute add.left_commute)
  qed
qed

lemma live_all_nonneg:
  "\<forall>e \<in> set es. 0 \<le> sint (key e) \<Longrightarrow> sint (key s) < 0 \<Longrightarrow> live (es @ s # more_es) = es"
  by (simp add: live_def takeWhile_append2)

text \<open>
  C6. When \<open>_Reader.read\<close> returns after storing a record, the length field \<open>L\<close> of
  the record (the four bytes after the eight of the feature key) is not negative; the
  returned vector has \<open>L + 1\<close> entries; entry \<open>i < L\<close> is the pair read from the bytes
  of the file at offset \<open>12 + 8 * i\<close> of the record; entry \<open>L\<close> is the marker with key -2
  and weight 0; and if the \<open>L\<close> class ids read are all non-negative, the entries before
  the first negative key are exactly the first \<open>L\<close>, and the scan that stops at the
  first negative key (that of \<open>_Writer.write\<close>) counts \<open>L\<close>.
\<close>

theorem Reader_read_sentinel:
  assumes "Reader_read rd = Inr (status, Some (feat_id, feat), rd')"
  shows "\<exists>L. int L = sint (bytes_word (take 4 (drop 8 (rest (r_fp rd)))) :: int32_t) \<and>
    length feat = L + 1 \<and>
    (\<forall>i < L. feat ! i =
       \<lparr>key = bytes_word (take 4 (drop (12 + 8 * i) (rest (r_fp rd)))),
        val = bytes_word (take 4 (drop (16 + 8 * i) (rest (r_fp rd))))\<rparr>) \<and>
    feat ! L = \<lparr>key = - 2, val = 0\<rparr> \<and>
    ((\<forall>i < L. 0 \<le> sint (key (feat ! i))) \<longrightarrow>
       live feat = take L feat \<and> scan_length 0 feat = Inr L)"
proof -
  let ?bs = "rest (r_fp rd)"
  let ?len = "bytes_word (take 4 (drop 8 ?bs)) :: int32_t"
  let ?L = "nat (sint ?len)"
  let ?es = "bytes_entries ?L (drop 12 ?bs)"
  have "\<not> eof (r_fp rd)"
    using assms by (auto simp: Reader_read_eof)
  with assms have nonneg: "0 \<le> sint ?len" and feat: "feat = ?es @ [\<lparr>key = - 2, val = 0\<rparr>]"
    by (auto simp: Reader_read_eq Let_def split: if_splits)
  have L: "int ?L = sint ?len" using nonneg by simp
  have len: "length feat = ?L + 1" by (simp add: feat)
  have nth: "feat ! i =
       \<lparr>key = bytes_word (take 4 (drop (12 + 8 * i) ?bs)),
        val = bytes_word (take 4 (drop (16 + 8 * i) ?bs))\<rparr>" if "i < ?L" for i
    using that by (simp add: feat nth_append bytes_entries_nth add.commute add.left_commute)
  have last: "feat ! ?L = \<lparr>key = - 2, val = 0\<rparr>"
    by (simp add: feat nth_append)
  have bound: "?L < 2 ^ 31"
  proof -
    have "sint ?len < 2 ^ (LENGTH(32) - Suc 0)" by (rule sint_less)
    then show ?thesis using nonneg by simp
  qed
  have iter: "live feat = take ?L feat \<and> scan_length 0 feat = Inr ?L"
    if "\<forall>i < ?L. 0 \<le> sint (key (feat ! i))"
  proof -
    have "\<forall>e \<in> set ?es. 0 \<le> sint (key e)"
    proof
      fix e assume "e \<in> set ?es"
      then obtain i where "i < ?L" "?es ! i = e"
        by (auto simp: in_set_conv_nth)
      with that show "0 \<le> sint (key e)"
        by (auto simp: feat nth_append)
    qed
    then have "live feat = ?es"
      unfolding feat by (rule live_all_nonneg) simp
    then show ?thesis
      using bound by (simp add: scan_length_0 feat)
  qed
  show ?thesis
    using L len nth last iter by blast
qed

theorem Reader_read_sentinel_witness:
  "Reader_read \<lparr>r_fp = \<lparr>rest = record_bytes 42 [\<lparr>key = 3, val = 0x3FC00000\<rparr>,
                                                  \<lparr>key = 7, val = 0xC0000000\<rparr>]
                                @ record_bytes 43 [], eof = False\<rparr>, r_nr_class = 10\<rparr>
   = Inr (1, Some (42, [\<lparr>key = 3, val = 0x3FC00000\<rparr>, \<lparr>key = 7, val = 0xC0000000\<rparr>,
                        \<lparr>key = - 2, val = 0\<rparr>]),
          \<lparr>r_fp = \<lparr>rest = record_bytes 43 [], eof = False\<rparr>, r_nr_class = 10\<rparr>) \<and>
   [\<lparr>key = 3, val = 0x3FC00000 :: weight_t\<rparr>, \<lparr>key = 7, val = 0xC0000000\<rparr>,
    \<lparr>key = - 2, val = 0\<rparr>] ! 2 = \<lparr>key = - 2, val = 0\<rparr> \<and>
   live [\<lparr>key = 3, val = 0x3FC00000 :: weight_t\<rparr>, \<lparr>key = 7, val = 0xC0000000\<rparr>,
         \<lparr>key = - 2, val = 0\<rparr>]
     = take 2 [\<lparr>key = 3, val = 0x3FC00000\<rparr>, \<lparr>key = 7, val = 0xC0000000\<rparr>,
               \<lparr>key = - 2, val = 0\<rparr>] \<and>
   scan_length 0 [\<lparr>key = 3, val = 0x3FC00000 :: weight_t\<rparr>, \<lparr>key = 7, val = 0xC0000000\<rparr>,
                  \<lparr>key = - 2, val = 0\<rparr>] = Inr 2"
proof -
  let ?es = "[\<lparr>key = 3, val = 0x3FC00000 :: weight_t\<rparr>, \<lparr>key = 7, val = 0xC0000000\<rparr>]"
  let ?feat = "?es @ [\<lparr>key = - 2, val = 0\<rparr>]"
  let ?rd = "\<lparr>r_fp = \<lparr>rest = record_bytes 42 ?es @ record_bytes 43 [], eof = False\<rparr>,
              r_nr_class = 10\<rparr>"
  have "length ?es < 2 ^ 31 - 1" by simp
  moreover have "rest (r_fp ?rd) = record_bytes 42 ?es @ record_bytes 43 []" by simp
  moreover have "\<not> eof (r_fp ?rd)" by simp
  ultimately have "Reader_read ?rd =
      Inr (1, Some (42, ?feat), ?rd\<lparr>r_fp := (r_fp ?rd)\<lparr>rest := record_bytes 43 []\<rparr>\<rparr>)"
    by (rule Reader_read_record)
  then have run: "Reader_read ?rd =
      Inr (1, Some (42, ?feat),
           \<lparr>r_fp = \<lparr>rest = record_bytes 43 [], eof = False\<rparr>, r_nr_class = 10\<rparr>)"
    by simp
  from Reader_read_sentinel [OF run] obtain L where
    len: "length ?feat = L + 1"
    and last: "?feat ! L = \<lparr>key = - 2, val = 0\<rparr>"
    and iter: "(\<forall>i < L. 0 \<le> sint (key (?feat ! i))) \<longrightarrow>
       live ?feat = take L ?feat \<and> scan_length 0 ?feat = Inr L"
    by blast
  from len have L: "L = 2" by simp
  have "\<forall>i < L. 0 \<le> sint (key (?feat ! i))"
    by (auto simp: L less_2_cases_iff)
  with iter have "live ?feat = take L ?feat \<and> scan_length 0 ?feat = Inr L" by (rule mp)
  with run last show ?thesis
    unfolding L by simp
qed

lemma Reader_read_nothing_stored:
  assumes "Reader_read rd = Inr (status, None, rd')"
  shows "status = 0 \<and> feof (r_fp rd')"
proof (cases "eof (r_fp rd)")
  case True
  with assms show ?thesis by (simp add: Reader_read_eof feof_def)
next
  case False
  with assms show ?thesis
    by (auto simp: Reader_read_eq Let_def feof_def split: if_splits)
qed





lemma Writer_failures:
  "(path_isdir fs loc \<longrightarrow> Writer_init fs loc nr_class = Inl AssertionError) \<and>
   (fopen_wb fs loc = None \<longrightarrow> Writer_init fs loc nr_class = Inl AssertionError) \<and>
   (fclose_status fs \<noteq> 0 \<longrightarrow> Writer_close fs w = Inl AssertionError) \<and>
   ((\<exists>err. Writer_close fs w = Inl err) \<longleftrightarrow> fclose_status fs \<noteq> 0)"
  by (auto simp: Writer_init_def Writer_close_def fclose_def path_isdir_def
      path_exists_def fopen_wb_def split: option.splits if_splits)

lemma Reader_init_failures:
  "(\<exists>err. Reader_init fs loc = Inl err) \<longleftrightarrow>
     \<not> path_exists fs loc \<or> path_isdir fs loc \<or> fopen_rb fs loc = None"
  "(\<exists>err. Reader_init fs loc = Inl err) \<longleftrightarrow> Reader_init fs loc = Inl (AssertionError, None)"
  by (auto simp: Reader_init_def path_isdir_def path_exists_def fread_def
      split: option.splits if_splits prod.splits)

lemma Reader_new_failures:
  assumes "\<not> path_exists fs loc \<or> path_isdir fs loc \<or> fopen_rb fs loc = None"
  shows "Reader_new fs loc = Inl UndefinedBehaviour"
    and "load fs weights loc = Inl UndefinedBehaviour"
proof -
  from assms have "Reader_init fs loc = Inl (AssertionError, None)"
    using Reader_init_failures [of fs loc] by blast
  then show "Reader_new fs loc = Inl UndefinedBehaviour"
    by (simp add: Reader_new_def Reader_dealloc_def)
  then show "load fs weights loc = Inl UndefinedBehaviour"
    by (simp add: load_def)
qed

text \<open>
  C9. The writer does what the claim says: \<open>_Writer.__init__\<close> fails with an
  AssertionError when the path is a directory (and when \<^verbatim>\<open>fopen\<close> returns NULL), and
  \<open>_Writer.close\<close> fails with one exactly when \<^verbatim>\<open>fclose\<close> reports a status other
  than 0; each is one pass over its statements, nothing is tried again
  (\<open>Writer_failures\<close>). The reader does not: when the path does not exist or is a
  directory, the assertion of \<open>_Reader.__init__\<close> fails while \<^verbatim>\<open>self._fp\<close> is still
  NULL, the half-built reader is released, and \<open>_Reader.__dealloc__\<close> calls
  \<^verbatim>\<open>fclose\<close> on the null pointer, which is undefined: the call \<^verbatim>\<open>_Reader(loc)\<close> does
  not end in the AssertionError (\<open>Reader_new_failures\<close>). Below, the constructors and
  \<open>close\<close> on a file system where \<^verbatim>\<open>models\<close> is a directory, \<^verbatim>\<open>weights.bin\<close> does not
  exist and \<^verbatim>\<open>fclose\<close> reports 1.
\<close>

theorem Reader_new_undefined:
  "Reader_init \<lparr>nodes = [''models'' \<mapsto> Directory], fopen_null = (\<lambda>loc. False),
                 free_space = 100, fclose_status = 1\<rparr> ''weights.bin''
     = Inl (AssertionError, None) \<and>
   Reader_new \<lparr>nodes = [''models'' \<mapsto> Directory], fopen_null = (\<lambda>loc. False),
                free_space = 100, fclose_status = 1\<rparr> ''weights.bin''
     = Inl UndefinedBehaviour \<and>
   Reader_init \<lparr>nodes = [''models'' \<mapsto> Directory], fopen_null = (\<lambda>loc. False),
                 free_space = 100, fclose_status = 1\<rparr> ''models''
     = Inl (AssertionError, None) \<and>
   Reader_new \<lparr>nodes = [''models'' \<mapsto> Directory], fopen_null = (\<lambda>loc. False),
                free_space = 100, fclose_status = 1\<rparr> ''models''
     = Inl UndefinedBehaviour \<and>
   Writer_init \<lparr>nodes = [''models'' \<mapsto> Directory], fopen_null = (\<lambda>loc. False),
                 free_space = 100, fclose_status = 1\<rparr> ''models'' 5 = Inl AssertionError \<and>
   Writer_close \<lparr>nodes = [''models'' \<mapsto> Directory], fopen_null = (\<lambda>loc. False),
                  free_space = 100, fclose_status = 1\<rparr>
     \<lparr>w_fp = \<lparr>wpath = ''weights.bin'', wbytes = [5, 0, 0, 0], wroom = 96\<rparr>, w_nr_class = 5\<rparr>
     = Inl AssertionError"
  by (simp add: Reader_new_def Reader_init_def Reader_dealloc_def Writer_init_def
      Writer_close_def fclose_def path_exists_def path_isdir_def)

subsection \<open>Doubling in the float arithmetic\<close>

text \<open>
  Multiplying a float by 2.0 is exact unless it overflows, and it commutes with the
  rounding of a value that does not underflow. So \<open>w * (2 * v) = 2 * (w * v)\<close> when
  \<open>2 * v\<close> is finite and the exact product \<open>w * v\<close> does not underflow
  (\<open>f32_mul_double\<close>), and \<open>2 * a + 2 * b = 2 * (a + b)\<close> when \<open>2 * a\<close> and \<open>2 * b\<close> are
  finite (\<open>f32_add_double\<close>).
\<close>

lemma bitlen_0 [simp]: "bitlen 0 = 0"
  by (simp add: bitlen.simps [of 0])

lemma bitlen_pos: "0 < m \<Longrightarrow> bitlen m = Suc (bitlen (m div 2))"
  by (simp add: bitlen.simps [of m])

lemma bitlen_double: "0 < m \<Longrightarrow> bitlen (2 * m) = Suc (bitlen m)"
  by (simp add: bitlen_pos [of "2 * m"])

lemma bitlen_less: "m < 2 ^ bitlen m"
proof (induction m rule: less_induct)
  case (less m)
  show ?case
  proof (cases "m = 0")
    case True
    then show ?thesis by simp
  next
    case False
    then have "m div 2 < m" by simp
    then have "m div 2 < 2 ^ bitlen (m div 2)" by (rule less.IH)
    then have "m < 2 * 2 ^ bitlen (m div 2)" by linarith
    then show ?thesis using False by (simp add: bitlen_pos)
  qed
qed

lemma bitlen_ge: "0 < m \<Longrightarrow> 2 ^ (bitlen m - 1) \<le> m"
proof (induction m rule: less_induct)
  case (less m)
  show ?case
  proof (cases "m = 1")
    case True
    then show ?thesis by (simp add: bitlen_pos)
  next
    case False
    with less.prems have m: "0 < m div 2" "m div 2 < m" by auto
    then have "2 ^ (bitlen (m div 2) - 1) \<le> m div 2" by (intro less.IH)
    moreover have "0 < bitlen (m div 2)" using m(1) by (simp add: bitlen_pos)
    ultimately have "2 ^ bitlen (m div 2) \<le> 2 * (m div 2)"
      by (cases "bitlen (m div 2)") simp_all
    then have "2 ^ bitlen (m div 2) \<le> m" by linarith
    then show ?thesis using less.prems by (simp add: bitlen_pos)
  qed
qed

lemma bitlen_le_iff: "bitlen m \<le> k \<longleftrightarrow> m < 2 ^ k"
proof
  assume "bitlen m \<le> k"
  then have "(2::nat) ^ bitlen m \<le> 2 ^ k" by simp
  with bitlen_less [of m] show "m < 2 ^ k" by linarith
next
  assume lt: "m < 2 ^ k"
  show "bitlen m \<le> k"
  proof (cases "m = 0")
    case True
    then show ?thesis by simp
  next
    case False
    then have "2 ^ (bitlen m - 1) \<le> m" using bitlen_ge [of m] by simp
    with lt have "(2::nat) ^ (bitlen m - 1) < 2 ^ k" by linarith
    then have "bitlen m - 1 < k" by simp
    then show ?thesis by linarith
  qed
qed

lemma round_half_even_0 [simp]: "0 < d \<Longrightarrow> round_half_even 0 d = 0"
  by (simp add: round_half_even_def)

lemma round_half_even_scale:
  "0 < d \<Longrightarrow> round_half_even (2 * m) (2 * d) = round_half_even m d"
  by (simp add: round_half_even_def Let_def)

lemma round_half_even_2: "round_half_even (2 * m) 2 = m"
  by (simp add: round_half_even_def Let_def)

lemma f32_round_alt:
  "f32_round s m e = f32_finish s (f32_quantum m e) (f32_scaled m e (f32_quantum m e))"
  by (simp only: f32_round_def f32_finish_def f32_quantum_def f32_scaled_def Let_def)

lemma f32_quantum_double: "0 < m \<Longrightarrow> f32_quantum (2 * m) e = f32_quantum m (e + 1)"
  by (simp add: f32_quantum_def bitlen_double)

lemma f32_scaled_double: "f32_scaled (2 * m) e q = f32_scaled m (e + 1) q"
proof -
  consider "q \<le> e" | "q = e + 1" | "e + 1 < q" by linarith
  then show ?thesis
  proof cases
    case 1
    then have "nat (e + 1 - q) = Suc (nat (e - q))" by simp
    then show ?thesis using 1 by (simp add: f32_scaled_def)
  next
    case 2
    then show ?thesis by (simp add: f32_scaled_def round_half_even_2)
  next
    case 3
    then have "nat (q - e) = Suc (nat (q - (e + 1)))" by simp
    then show ?thesis using 3 by (simp add: f32_scaled_def round_half_even_scale)
  qed
qed

lemma f32_scaled_0 [simp]: "f32_scaled 0 e q = 0"
  by (simp add: f32_scaled_def)

lemma f32_round_0: "f32_round s 0 e = f32_pack s 0 0"
  by (simp add: f32_round_alt f32_finish_def)

lemma f32_round_double: "f32_round s (2 * m) e = f32_round s m (e + 1)"
proof (cases "m = 0")
  case True
  then show ?thesis by (simp add: f32_round_0)
next
  case False
  then show ?thesis
    by (simp add: f32_round_alt f32_quantum_double f32_scaled_double)
qed

lemma f32_round_shift: "f32_round s (m * 2 ^ k) e = f32_round s m (e + int k)"
proof (induction k arbitrary: e)
  case 0
  show ?case by simp
next
  case (Suc k)
  have "f32_round s (m * 2 ^ Suc k) e = f32_round s (2 * (m * 2 ^ k)) e"
    by (simp add: mult.commute mult.left_commute)
  also have "\<dots> = f32_round s (m * 2 ^ k) (e + 1)" by (rule f32_round_double)
  also have "\<dots> = f32_round s m (e + 1 + int k)" by (rule Suc.IH)
  finally show ?case by (simp add: add.commute add.left_commute)
qed

lemma nat_top_bit:
  fixes K :: nat
  assumes "n < 2 * K"
  shows "odd (n div K) \<longleftrightarrow> K \<le> n"
proof (cases "K \<le> n")
  case True
  then have "0 < K" using assms by simp
  have "n div K < 2" using assms by (simp add: less_mult_imp_div_less mult.commute)
  moreover have "1 \<le> n div K" using True \<open>0 < K\<close> by (simp add: div_greater_zero_iff Suc_le_eq)
  ultimately have "n div K = 1" by simp
  with True show ?thesis by simp
next
  case False
  then have "n div K = 0" by simp
  with False show ?thesis by simp
qed

lemma nat_fields_split:
  fixes A :: nat
  assumes "0 < A" and "n < 512 * A" and S: "S = 256 * A"
  shows "(if S \<le> n then S else 0) + n div A mod 256 * A + n mod A = n"
proof -
  define q where "q = n div A"
  have n: "q * A + n mod A = n" by (simp add: q_def)
  have q: "q < 512" using assms unfolding q_def by (simp add: less_mult_imp_div_less)
  have le: "256 * A \<le> n \<longleftrightarrow> 256 \<le> q"
    unfolding q_def using assms(1) by (simp add: less_eq_div_iff_mult_less_eq)
  have "(if 256 \<le> q then 256 else 0) + q mod 256 = q"
  proof (cases "256 \<le> q")
    case True
    then have "q mod 256 = q - 256" using q by (simp add: mod_if)
    with True show ?thesis by simp
  next
    case False
    then show ?thesis by simp
  qed
  then have "((if 256 \<le> q then 256 else 0) + q mod 256) * A + n mod A = n"
    using n by simp
  then show ?thesis
    unfolding S le q_def [symmetric] by (simp add: algebra_simps split: if_splits)
qed

lemma nat_fields_join:
  fixes A :: nat
  assumes "ex < 256" and "fr < A" and S: "S = 256 * A"
  shows "((if s then S else 0) + ex * A + fr) div A mod 256 = ex"
    and "((if s then S else 0) + ex * A + fr) mod A = fr"
    and "S \<le> (if s then S else 0) + ex * A + fr \<longleftrightarrow> s"
  unfolding S
proof -
  have e: "(if s then 256 * A else 0) + ex * A + fr = ((if s then 256 else 0) + ex) * A + fr"
    by (simp add: algebra_simps)
  have A: "0 < A" using assms by simp
  have "((if s then 256 else 0) + ex) mod 256 = ex" using assms by simp
  then show "((if s then 256 * A else 0) + ex * A + fr) div A mod 256 = ex"
    unfolding e using assms by simp
  show "((if s then 256 * A else 0) + ex * A + fr) mod A = fr"
    unfolding e using assms by simp
  have "ex * A + fr < 256 * A"
  proof -
    have "ex * A + fr < ex * A + A" using assms by simp
    also have "\<dots> = Suc ex * A" by simp
    also have "\<dots> \<le> 256 * A" using assms by (intro mult_le_mono1) simp
    finally show ?thesis .
  qed
  then show "256 * A \<le> (if s then 256 * A else 0) + ex * A + fr \<longleftrightarrow> s"
    by simp
qed

lemma f32_sign_unat: "bit (w :: weight_t) 31 \<longleftrightarrow> 2147483648 \<le> unat w"
proof -
  have "unat w < 2 ^ 32" using unsigned_less [of w] by simp
  then have "unat w < 2 * 2147483648" by simp
  then have "odd (unat w div 2147483648) \<longleftrightarrow> 2147483648 \<le> unat w"
    by (rule nat_top_bit)
  moreover have "bit w 31 \<longleftrightarrow> bit (unat w) 31"
    by (simp add: bit_unsigned_iff)
  moreover have "bit (unat w) 31 \<longleftrightarrow> odd (unat w div 2147483648)"
    by (simp add: bit_iff_odd)
  ultimately show ?thesis by simp
qed

lemma f32_exponent_unat:
  "unat (take_bit 8 (drop_bit 23 (w :: weight_t))) = unat w div 8388608 mod 256"
proof -
  have "unat (take_bit 8 (drop_bit 23 w)) = take_bit 8 (drop_bit 23 (unat w))"
    by (simp only: unsigned_take_bit_eq unat_drop_bit_eq)
  also have "\<dots> = unat w div 8388608 mod 256"
    by (simp add: take_bit_eq_mod drop_bit_eq_div)
  finally show ?thesis .
qed

lemma f32_fraction_unat: "unat (take_bit 23 (w :: weight_t)) = unat w mod 8388608"
proof -
  have "unat (take_bit 23 w) = take_bit 23 (unat w)"
    by (simp only: unsigned_take_bit_eq)
  also have "\<dots> = unat w mod 8388608"
    by (simp add: take_bit_eq_mod)
  finally show ?thesis .
qed

lemma f32_pack_of_nat:
  "f32_pack s ex fr = word_of_nat ((if s then 2147483648 else 0) + ex * 8388608 + fr)"
  by (simp add: f32_pack_def push_bit_eq_mult)

lemma unat_f32_pack:
  assumes "ex < 256" and "fr < 8388608"
  shows "unat (f32_pack s ex fr) = (if s then 2147483648 else 0) + ex * 8388608 + fr"
proof -
  let ?n = "(if s then 2147483648 else 0) + ex * 8388608 + fr"
  have "?n < 2 ^ LENGTH(32)"
    using assms by (simp split: if_splits)
  with refl have "unat (word_of_nat ?n :: weight_t) = ?n"
    by (rule of_nat_inverse)
  then show ?thesis
    by (simp only: f32_pack_of_nat)
qed

lemma f32_decode_pack:
  assumes "ex < 256" and "fr < 8388608"
  shows "f32_decode (f32_pack s ex fr) =
    (if ex = 255 then (if fr = 0 then Infinity s else NaN)
     else if ex = 0 then Finite s fr (- 149)
     else Finite s (8388608 + fr) (int ex - 150))"
proof -
  let ?n = "(if s then 2147483648 else 0) + ex * 8388608 + fr"
  have u: "unat (f32_pack s ex fr) = ?n" using assms by (rule unat_f32_pack)
  have a: "?n div 8388608 mod 256 = ex"
    by (rule nat_fields_join(1) [OF assms]) simp
  have b: "?n mod 8388608 = fr"
    by (rule nat_fields_join(2) [OF assms]) simp
  have c: "(2147483648 \<le> ?n) = s"
    by (rule nat_fields_join(3) [OF assms]) simp
  show ?thesis
    unfolding f32_decode_def f32_sign_unat f32_exponent_unat f32_fraction_unat u a b c Let_def
    by simp
qed

lemma f32_pack_fields:
  "f32_pack (bit w 31) (unat (take_bit 8 (drop_bit 23 w))) (unat (take_bit 23 w)) = w"
proof -
  have "unat w < 2 ^ 32" using unsigned_less [of w] by simp
  then have lt: "unat w < 512 * 8388608" by simp
  have "(if 2147483648 \<le> unat w then 2147483648 else 0) + unat w div 8388608 mod 256 * 8388608
      + unat w mod 8388608 = unat w"
    by (rule nat_fields_split [OF _ lt]) simp_all
  then have "word_of_nat ((if 2147483648 \<le> unat w then 2147483648 else 0)
      + unat w div 8388608 mod 256 * 8388608 + unat w mod 8388608) = w"
    by (simp only: of_nat_unat) simp
  then show ?thesis
    by (simp only: f32_pack_of_nat f32_sign_unat f32_exponent_unat f32_fraction_unat)
qed

lemma f32_decode_cases:
  assumes "f32_decode x = Finite s m e"
  shows "(m < 8388608 \<and> e = - 149 \<and> x = f32_pack s 0 m) \<or>
    (8388608 \<le> m \<and> m < 16777216 \<and> - 149 \<le> e \<and> e \<le> 104 \<and>
     x = f32_pack s (nat (e + 150)) (m - 8388608))"
proof -
  define ex where "ex = unat (take_bit 8 (drop_bit 23 x))"
  define fr where "fr = unat (take_bit 23 x)"
  have ex: "ex < 256" unfolding ex_def f32_exponent_unat by simp
  have fr: "fr < 8388608" unfolding fr_def f32_fraction_unat by simp
  have x: "x = f32_pack (bit x 31) ex fr"
    unfolding ex_def fr_def by (simp only: f32_pack_fields)
  have "f32_decode x = (if ex = 255 then (if fr = 0 then Infinity (bit x 31) else NaN)
      else if ex = 0 then Finite (bit x 31) fr (- 149)
      else Finite (bit x 31) (8388608 + fr) (int ex - 150))"
    unfolding f32_decode_def Let_def ex_def [symmetric] fr_def [symmetric] by simp
  with assms consider "ex = 0" "s = bit x 31" "m = fr" "e = - 149"
    | "ex \<noteq> 0" "ex \<noteq> 255" "s = bit x 31" "m = 8388608 + fr" "e = int ex - 150"
    by (auto split: if_splits)
  then show ?thesis
  proof cases
    case 1
    with fr x show ?thesis by simp
  next
    case 2
    with ex fr x show ?thesis by simp
  qed
qed

lemma bitlen_24: "8388608 \<le> m \<Longrightarrow> m < 16777216 \<Longrightarrow> bitlen m = 24"
proof -
  assume "8388608 \<le> m" and "m < 16777216"
  then have "bitlen m \<le> 24" and "\<not> bitlen m \<le> 23"
    by (simp_all add: bitlen_le_iff)
  then show ?thesis by simp
qed

lemma f32_round_subnormal:
  assumes "m < 16777216"
  shows "f32_round s m (- 149)
    = (if m < 8388608 then f32_pack s 0 m else f32_pack s 1 (m - 8388608))"
proof -
  from assms have "bitlen m \<le> 24" by (simp add: bitlen_le_iff)
  then have q: "f32_quantum m (- 149) = - 149" by (simp add: f32_quantum_def)
  show ?thesis
    using assms by (simp add: f32_round_alt q f32_scaled_def f32_finish_def)
qed

lemma f32_round_normal:
  assumes "8388608 \<le> m" and "m < 16777216" and "- 149 \<le> e"
  shows "f32_round s m e
    = (if 105 \<le> e then f32_pack s 255 0 else f32_pack s (nat (e + 150)) (m - 8388608))"
proof -
  have q: "f32_quantum m e = e"
    using assms by (simp add: f32_quantum_def bitlen_24)
  show ?thesis
    using assms by (simp add: f32_round_alt q f32_scaled_def f32_finish_def)
qed

lemma f32_round_decode: "f32_decode x = Finite s m e \<Longrightarrow> f32_round s m e = x"
  using f32_decode_cases [of x s m e]
  by (auto simp add: f32_round_subnormal f32_round_normal)

lemma f32_mul_two:
  assumes "f32_decode x = Finite s m e"
  shows "f32_mul 0x40000000 x = f32_round s m (e + 1)"
proof -
  have "f32_mul 0x40000000 x = f32_round s (8388608 * m) (- 22 + e)"
    using f32_mul_Finite [OF f32_decode_2 assms] by simp
  also have "8388608 * m = m * 2 ^ 23" by simp
  also have "f32_round s (m * 2 ^ 23) (- 22 + e) = f32_round s m (- 22 + e + int 23)"
    by (rule f32_round_shift)
  finally have "f32_mul 0x40000000 x = f32_round s m (- 22 + e + int 23)" .
  moreover have "- 22 + e + int 23 = e + 1" by simp
  ultimately show ?thesis by (simp only:)
qed

lemma f32_mul_two_Infinity: "f32_mul 0x40000000 (f32_pack s 255 0) = f32_pack s 255 0"
proof -
  have "f32_decode (f32_pack s 255 0) = Infinity s"
    by (simp add: f32_decode_pack)
  then show ?thesis
    by (simp add: f32_mul_def f32_decode_2)
qed

lemma f32_decode_double:
  assumes "f32_decode x = Finite s m e" and "\<not> (8388608 \<le> m \<and> e = 104)"
  shows "f32_decode (f32_mul 0x40000000 x)
    = (if 8388608 \<le> m then Finite s m (e + 1) else Finite s (2 * m) e)"
proof -
  from f32_decode_cases [OF assms(1)]
  consider "m < 8388608" "e = - 149"
    | "8388608 \<le> m" "m < 16777216" "- 149 \<le> e" "e \<le> 104"
    by blast
  then show ?thesis
  proof cases
    case 1
    have "f32_mul 0x40000000 x = f32_round s m (- 149 + 1)"
      using f32_mul_two [OF assms(1)] 1 by simp
    also have "\<dots> = f32_round s (2 * m) (- 149)"
      by (simp only: f32_round_double)
    also have "\<dots> = (if 2 * m < 8388608 then f32_pack s 0 (2 * m)
        else f32_pack s 1 (2 * m - 8388608))"
      using 1 by (intro f32_round_subnormal) simp
    finally show ?thesis
      using 1 by (simp add: f32_decode_pack)
  next
    case 2
    with assms(2) have e: "e < 104" by simp
    have "f32_mul 0x40000000 x = f32_round s m (e + 1)"
      by (rule f32_mul_two [OF assms(1)])
    also have "\<dots> = f32_pack s (nat (e + 1 + 150)) (m - 8388608)"
      using 2 e by (simp add: f32_round_normal)
    finally show ?thesis
      using 2 e by (simp add: f32_decode_pack nat_eq_iff)
  qed
qed

lemma f32_mul_two_round_normal:
  assumes "8388608 \<le> m" and "m < 16777216" and "- 149 \<le> e"
  shows "f32_mul 0x40000000 (f32_round s m e) = f32_round s m (e + 1)"
proof (cases "105 \<le> e")
  case True
  then show ?thesis
    using assms by (simp add: f32_round_normal f32_mul_two_Infinity)
next
  case False
  then have "f32_round s m e = f32_pack s (nat (e + 150)) (m - 8388608)"
    using assms by (simp add: f32_round_normal)
  moreover have "f32_decode (f32_pack s (nat (e + 150)) (m - 8388608)) = Finite s m e"
    using assms False by (simp add: f32_decode_pack nat_eq_iff)
  ultimately have "f32_decode (f32_round s m e) = Finite s m e" by simp
  then show ?thesis by (rule f32_mul_two)
qed

lemma f32_finish_normal:
  assumes "8388608 \<le> m1" and "m1 \<le> 16777216" and "- 149 \<le> q"
  shows "f32_finish s q m1 = f32_round s (if m1 = 16777216 then 8388608 else m1)
    (if m1 = 16777216 then q + 1 else q)"
  using assms by (simp add: f32_finish_def f32_round_normal)

lemma f32_mul_two_finish:
  assumes "8388608 \<le> m1" and "m1 \<le> 16777216" and "- 149 \<le> q"
  shows "f32_mul 0x40000000 (f32_finish s q m1) = f32_finish s (q + 1) m1"
proof -
  let ?m = "if m1 = 16777216 then 8388608 else m1"
  let ?q = "if m1 = 16777216 then q + 1 else q"
  have "f32_mul 0x40000000 (f32_round s ?m ?q) = f32_round s ?m (?q + 1)"
    using assms by (intro f32_mul_two_round_normal) simp_all
  moreover have "f32_finish s q m1 = f32_round s ?m ?q"
    using assms by (rule f32_finish_normal)
  moreover have "f32_finish s (q + 1) m1 = f32_round s ?m (?q + 1)"
    using assms by (simp add: f32_finish_normal)
  ultimately show ?thesis by simp
qed

lemma f32_scaled_normal:
  assumes "0 < m"
  shows "8388608 \<le> f32_scaled m e (e + int (bitlen m) - 24)"
    and "f32_scaled m e (e + int (bitlen m) - 24) \<le> 16777216"
proof -
  define b where "b = bitlen m"
  have lo: "2 ^ (b - 1) \<le> m" unfolding b_def using assms by (rule bitlen_ge)
  have hi: "m < 2 ^ b" unfolding b_def by (rule bitlen_less)
  have b: "0 < b" unfolding b_def using assms by (simp add: bitlen_pos)
  have "8388608 \<le> f32_scaled m e (e + int b - 24) \<and> f32_scaled m e (e + int b - 24) \<le> 16777216"
  proof (cases "b \<le> 24")
    case True
    then have s: "f32_scaled m e (e + int b - 24) = m * 2 ^ (24 - b)"
      by (simp add: f32_scaled_def nat_diff_distrib')
    have "(2::nat) ^ (b - 1) * 2 ^ (24 - b) = 2 ^ 23"
      using True b by (simp add: power_add [symmetric])
    moreover have "2 ^ (b - 1) * 2 ^ (24 - b) \<le> m * (2::nat) ^ (24 - b)"
      using lo by (rule mult_le_mono1)
    moreover have "(2::nat) ^ b * 2 ^ (24 - b) = 2 ^ 24"
      using True by (simp add: power_add [symmetric])
    moreover have "m * 2 ^ (24 - b) < 2 ^ b * (2::nat) ^ (24 - b)"
      using hi by simp
    ultimately show ?thesis unfolding s by simp
  next
    case False
    define k where "k = b - 24"
    have bk: "b = 24 + k" and k: "0 < k" using False by (simp_all add: k_def)
    have s: "f32_scaled m e (e + int b - 24) = round_half_even m (2 ^ k)"
      using k by (simp add: f32_scaled_def bk)
    have "2 ^ 23 * 2 ^ k \<le> m" using lo by (simp add: bk power_add)
    then have "2 ^ 23 \<le> m div 2 ^ k" by (simp add: less_eq_div_iff_mult_less_eq)
    moreover have "m < 2 ^ 24 * 2 ^ k" using hi by (simp add: bk power_add)
    then have "m div 2 ^ k < 2 ^ 24" by (simp add: less_mult_imp_div_less)
    ultimately show ?thesis
      unfolding s by (simp add: round_half_even_def Let_def)
  qed
  then show "8388608 \<le> f32_scaled m e (e + int (bitlen m) - 24)"
    and "f32_scaled m e (e + int (bitlen m) - 24) \<le> 16777216"
    unfolding b_def by simp_all
qed

lemma f32_scaled_up: "f32_scaled m (e + 1) (q + 1) = f32_scaled m e q"
  by (simp add: f32_scaled_def)

lemma f32_mul_two_zero: "f32_mul 0x40000000 (f32_pack s 0 0) = f32_pack s 0 0"
proof -
  have "f32_decode (f32_pack s 0 0) = Finite s 0 (- 149)"
    by (simp add: f32_decode_pack)
  then have "f32_mul 0x40000000 (f32_pack s 0 0) = f32_round s 0 (- 149 + 1)"
    by (rule f32_mul_two)
  then show ?thesis by (simp add: f32_round_0)
qed

lemma f32_mul_two_round_large:
  assumes "0 < m" and "- 149 \<le> e + int (bitlen m) - 24"
  shows "f32_mul 0x40000000 (f32_round s m e) = f32_round s m (e + 1)"
proof -
  let ?q = "e + int (bitlen m) - 24"
  have q: "f32_quantum m e = ?q" "f32_quantum m (e + 1) = ?q + 1"
    using assms(2) by (simp_all add: f32_quantum_def)
  have "f32_mul 0x40000000 (f32_finish s ?q (f32_scaled m e ?q))
      = f32_finish s (?q + 1) (f32_scaled m e ?q)"
    using f32_scaled_normal [OF assms(1), of e] assms(2) by (rule f32_mul_two_finish)
  then show ?thesis
    by (simp only: f32_round_alt q f32_scaled_up)
qed

lemma f32_mul_two_round_exact:
  "f32_mul 0x40000000 (f32_round s m (- 149)) = f32_round s m (- 149 + 1)"
proof (cases "m < 8388608")
  case True
  then have "f32_round s m (- 149) = f32_pack s 0 m"
    by (simp add: f32_round_subnormal)
  moreover have "f32_decode (f32_pack s 0 m) = Finite s m (- 149)"
    using True by (simp add: f32_decode_pack)
  ultimately have "f32_decode (f32_round s m (- 149)) = Finite s m (- 149)" by simp
  then show ?thesis by (rule f32_mul_two)
next
  case False
  then have "\<not> bitlen m \<le> 23" by (simp add: bitlen_le_iff)
  then have "- 149 \<le> - 149 + int (bitlen m) - 24" by simp
  moreover have "0 < m" using False by simp
  ultimately show ?thesis by (intro f32_mul_two_round_large)
qed

lemma f32_mul_two_round:
  assumes "f32_no_underflow m e"
  shows "f32_mul 0x40000000 (f32_round s m e) = f32_round s m (e + 1)"
proof -
  from assms consider "m = 0" | "- 149 \<le> e" | "0 < m" "- 149 \<le> e + int (bitlen m) - 24"
    unfolding f32_no_underflow_def by fastforce
  then show ?thesis
  proof cases
    case 1
    then show ?thesis by (simp add: f32_round_0 f32_mul_two_zero)
  next
    case 2
    define k where "k = nat (e + 149)"
    have e: "e = - 149 + int k" using 2 by (simp add: k_def)
    have "f32_round s m e = f32_round s (m * 2 ^ k) (- 149)"
      unfolding e by (simp only: f32_round_shift)
    moreover have "f32_round s m (e + 1) = f32_round s (m * 2 ^ k) (- 149 + 1)"
      unfolding e by (simp add: f32_round_shift add.commute add.left_commute)
    ultimately show ?thesis by (simp only: f32_mul_two_round_exact)
  next
    case 3
    then show ?thesis by (rule f32_mul_two_round_large)
  qed
qed

lemma f32_mul_double:
  assumes w: "f32_decode w = Finite s m e" and v: "f32_decode v = Finite t n f"
    and fin: "\<not> (8388608 \<le> n \<and> f = 104)"
    and nu: "f32_no_underflow (m * n) (e + f)"
  shows "f32_mul w (f32_mul 0x40000000 v) = f32_mul 0x40000000 (f32_mul w v)"
proof -
  have r: "f32_mul 0x40000000 (f32_mul w v) = f32_round (s \<noteq> t) (m * n) (e + f + 1)"
    by (simp only: f32_mul_Finite [OF w v] f32_mul_two_round [OF nu])
  show ?thesis
  proof (cases "8388608 \<le> n")
    case True
    then have "f32_decode (f32_mul 0x40000000 v) = Finite t n (f + 1)"
      using f32_decode_double [OF v fin] by simp
    from f32_mul_Finite [OF w this]
    have "f32_mul w (f32_mul 0x40000000 v) = f32_round (s \<noteq> t) (m * n) (e + (f + 1))" .
    then show ?thesis by (simp only: r add.assoc)
  next
    case False
    then have "f32_decode (f32_mul 0x40000000 v) = Finite t (2 * n) f"
      using f32_decode_double [OF v fin] by simp
    from f32_mul_Finite [OF w this]
    have "f32_mul w (f32_mul 0x40000000 v) = f32_round (s \<noteq> t) (m * (2 * n)) (e + f)" .
    also have "m * (2 * n) = 2 * (m * n)" by simp
    also have "f32_round (s \<noteq> t) (2 * (m * n)) (e + f)
        = f32_round (s \<noteq> t) (m * n) (e + f + 1)"
      by (rule f32_round_double)
    finally show ?thesis by (simp only: r)
  qed
qed

lemma f32_add_Finite:
  "f32_decode a = Finite s m e \<Longrightarrow> f32_decode b = Finite t n f \<Longrightarrow>
   f32_add a b = f32_signed_round (s \<and> t) (f32_aligned (min e f) s m e t n f) (min e f)"
  by (simp add: f32_add_def f32_signed_round_def f32_aligned_def Let_def)

lemma f32_aligned_shift:
  assumes "g' \<le> g" and "g \<le> e" and "g \<le> f"
  shows "f32_aligned g' s m e t n f = f32_aligned g s m e t n f * 2 ^ nat (g - g')"
proof -
  have "nat (e - g') = nat (e - g) + nat (g - g')" and "nat (f - g') = nat (f - g) + nat (g - g')"
    using assms by simp_all
  then show ?thesis
    by (simp add: f32_aligned_def power_add algebra_simps)
qed

lemma f32_signed_round_shift:
  "f32_signed_round s0 (z * 2 ^ k) g = f32_signed_round s0 z (g + int k)"
proof -
  have "nat \<bar>z * 2 ^ k\<bar> = nat \<bar>z\<bar> * 2 ^ k"
    by (simp add: abs_mult nat_mult_distrib nat_power_eq)
  moreover have "z * 2 ^ k < 0 \<longleftrightarrow> z < 0"
    by (simp add: mult_less_0_iff)
  ultimately show ?thesis
    by (simp add: f32_signed_round_def f32_round_shift)
qed

lemma f32_add_aligned:
  assumes a: "f32_decode a = Finite s m e" and b: "f32_decode b = Finite t n f"
    and "g \<le> e" and "g \<le> f"
  shows "f32_add a b = f32_signed_round (s \<and> t) (f32_aligned g s m e t n f) g"
proof -
  have "f32_aligned g s m e t n f = f32_aligned (min e f) s m e t n f * 2 ^ nat (min e f - g)"
    using assms(3,4) by (intro f32_aligned_shift) simp_all
  moreover have "min e f + int (nat (min e f - g)) = min e f + (min e f - g)"
    using assms(3,4) by simp
  ultimately have "f32_signed_round (s \<and> t) (f32_aligned g s m e t n f) g
      = f32_signed_round (s \<and> t) (f32_aligned (min e f) s m e t n f) (g + int (nat (min e f - g)))"
    by (simp only: f32_signed_round_shift)
  moreover have "g + int (nat (min e f - g)) = min e f"
    using assms(3,4) by simp
  ultimately show ?thesis
    by (simp only: f32_add_Finite [OF a b])
qed

lemma f32_mul_two_signed_round:
  assumes "- 149 \<le> g"
  shows "f32_mul 0x40000000 (f32_signed_round s0 z g) = f32_signed_round s0 z (g + 1)"
proof -
  have "f32_no_underflow (nat \<bar>z\<bar>) g"
    using assms by (simp add: f32_no_underflow_def)
  then show ?thesis
    by (simp add: f32_signed_round_def f32_mul_two_zero f32_mul_two_round)
qed

lemma f32_decode_double_aligned:
  assumes x: "f32_decode x = Finite s m e" and fin: "\<not> (8388608 \<le> m \<and> e = 104)"
    and g: "g \<le> e"
  obtains m' e' where "f32_decode (f32_mul 0x40000000 x) = Finite s m' e'" and "g \<le> e'"
    and "int m' * 2 ^ nat (e' - g) = 2 * (int m * 2 ^ nat (e - g))"
proof (cases "8388608 \<le> m")
  case True
  then have "f32_decode (f32_mul 0x40000000 x) = Finite s m (e + 1)"
    using f32_decode_double [OF x fin] by simp
  moreover have "g \<le> e + 1" using g by simp
  moreover have "nat (e + 1 - g) = Suc (nat (e - g))" using g by simp
  then have "int m * 2 ^ nat (e + 1 - g) = 2 * (int m * 2 ^ nat (e - g))" by simp
  ultimately show ?thesis by (rule that)
next
  case False
  then have "f32_decode (f32_mul 0x40000000 x) = Finite s (2 * m) e"
    using f32_decode_double [OF x fin] by simp
  moreover have "int (2 * m) * 2 ^ nat (e - g) = 2 * (int m * 2 ^ nat (e - g))" by simp
  ultimately show ?thesis using g by (intro that)
qed

lemma f32_add_double:
  assumes a: "f32_decode a = Finite s m e" and b: "f32_decode b = Finite t n f"
    and fa: "\<not> (8388608 \<le> m \<and> e = 104)" and fb: "\<not> (8388608 \<le> n \<and> f = 104)"
  shows "f32_add (f32_mul 0x40000000 a) (f32_mul 0x40000000 b)
    = f32_mul 0x40000000 (f32_add a b)"
proof -
  define g where "g = min e f"
  have g: "g \<le> e" "g \<le> f" by (simp_all add: g_def)
  have lo: "- 149 \<le> g"
    using f32_decode_exponent [OF a] f32_decode_exponent [OF b] by (simp add: g_def)
  obtain m' e' where a': "f32_decode (f32_mul 0x40000000 a) = Finite s m' e'"
    and ga: "g \<le> e'" and ma: "int m' * 2 ^ nat (e' - g) = 2 * (int m * 2 ^ nat (e - g))"
    using f32_decode_double_aligned [OF a fa g(1)] by blast
  obtain n' f' where b': "f32_decode (f32_mul 0x40000000 b) = Finite t n' f'"
    and gb: "g \<le> f'" and nb: "int n' * 2 ^ nat (f' - g) = 2 * (int n * 2 ^ nat (f - g))"
    using f32_decode_double_aligned [OF b fb g(2)] by blast
  have "f32_aligned g s m' e' t n' f'
      = (if s then - 1 else 1) * (int m' * 2 ^ nat (e' - g))
        + (if t then - 1 else 1) * (int n' * 2 ^ nat (f' - g))"
    by (simp add: f32_aligned_def)
  also have "\<dots> = f32_aligned g s m e t n f * 2 ^ 1"
    unfolding ma nb by (simp add: f32_aligned_def)
  finally have z: "f32_aligned g s m' e' t n' f' = f32_aligned g s m e t n f * 2 ^ 1" .
  have "f32_add (f32_mul 0x40000000 a) (f32_mul 0x40000000 b)
      = f32_signed_round (s \<and> t) (f32_aligned g s m' e' t n' f') g"
    using a' b' ga gb by (rule f32_add_aligned)
  also have "\<dots> = f32_signed_round (s \<and> t) (f32_aligned g s m e t n f) (g + int 1)"
    unfolding z by (rule f32_signed_round_shift)
  also have "\<dots> = f32_mul 0x40000000 (f32_signed_round (s \<and> t) (f32_aligned g s m e t n f) g)"
    using lo by (simp add: f32_mul_two_signed_round)
  also have "f32_signed_round (s \<and> t) (f32_aligned g s m e t n f) g = f32_add a b"
    using a b g by (rule f32_add_aligned [symmetric])
  finally show ?thesis .
qed

lemma f32_doublesE:
  assumes "f32_doubles x"
  obtains s m e where "f32_decode x = Finite s m e" and "\<not> (8388608 \<le> m \<and> e = 104)"
  using assms by (auto simp add: f32_doubles_def split: fp.splits)

lemma f32_update_double:
  assumes sc: "f32_doubles sc" and v: "f32_doubles v" and wv: "f32_product_safe w v"
    and p: "f32_doubles (f32_mul w v)"
  shows "f32_add (f32_mul 0x40000000 sc) (f32_mul w (f32_mul 0x40000000 v))
    = f32_mul 0x40000000 (f32_add sc (f32_mul w v))"
proof -
  from v obtain t n f where dv: "f32_decode v = Finite t n f"
    and fv: "\<not> (8388608 \<le> n \<and> f = 104)"
    by (rule f32_doublesE)
  from wv dv obtain s m e where dw: "f32_decode w = Finite s m e"
    and nu: "f32_no_underflow (m * n) (e + f)"
    by (auto simp add: f32_product_safe_def split: fp.splits)
  have m: "f32_mul w (f32_mul 0x40000000 v) = f32_mul 0x40000000 (f32_mul w v)"
    using dw dv fv nu by (rule f32_mul_double)
  from sc obtain s1 m1 e1 where d1: "f32_decode sc = Finite s1 m1 e1"
    and f1: "\<not> (8388608 \<le> m1 \<and> e1 = 104)"
    by (rule f32_doublesE)
  from p obtain s2 m2 e2 where d2: "f32_decode (f32_mul w v) = Finite s2 m2 e2"
    and f2: "\<not> (8388608 \<le> m2 \<and> e2 = 104)"
    by (rule f32_doublesE)
  show ?thesis
    unfolding m using d1 d2 f1 f2 by (rule f32_add_double)
qed

subsection \<open>Doubling the value of a feature\<close>

lemma add_class_weights_double:
  "doubling_exact A dbl v class_weights scores \<Longrightarrow>
   add_class_weights A (dbl v) j class_weights (map dbl scores)
     = map_sum id (map dbl) (add_class_weights A v j class_weights scores)"
proof (induction class_weights arbitrary: j scores)
  case Nil
  show ?case by simp
next
  case (Cons e es)
  let ?c = "nat (sint (key e))"
  show ?case
  proof (cases "0 \<le> sint (key e) \<and> ?c < length scores")
    case False
    then show ?thesis by auto
  next
    case True
    let ?s = "scores[?c := add A (scores ! ?c) (mul A (val e) v)]"
    from Cons.prems True
    have step: "add A (dbl (scores ! ?c)) (mul A (val e) (dbl v))
        = dbl (add A (scores ! ?c) (mul A (val e) v))"
      and rest_ok: "doubling_exact A dbl v es ?s"
      by simp_all
    have upd: "(map dbl scores)[?c := add A (dbl (scores ! ?c)) (mul A (val e) (dbl v))]
        = map dbl ?s"
      by (simp add: step map_update)
    show ?thesis
      using True by (simp add: upd Cons.IH [OF rest_ok])
  qed
qed

lemma doubling_exact_ieee32:
  "f32_doubling_safe v class_weights scores \<Longrightarrow>
   doubling_exact ieee32 (f32_mul 0x40000000) v class_weights scores"
proof (induction class_weights arbitrary: scores)
  case Nil
  show ?case by simp
next
  case (Cons e es)
  show ?case
  proof (cases "0 \<le> sint (key e) \<and> nat (sint (key e)) < length scores")
    case False
    then show ?thesis by auto
  next
    case True
    let ?c = "nat (sint (key e))"
    from Cons.prems True
    have safe: "f32_doubles v" "f32_product_safe (val e) v" "f32_doubles (f32_mul (val e) v)"
        "f32_doubles (scores ! ?c)"
      and rest_ok: "f32_doubling_safe v es
        (scores[?c := f32_add (scores ! ?c) (f32_mul (val e) v)])"
      by simp_all
    have "f32_add (f32_mul 0x40000000 (scores ! ?c)) (f32_mul (val e) (f32_mul 0x40000000 v))
        = f32_mul 0x40000000 (f32_add (scores ! ?c) (f32_mul (val e) v))"
      using safe(4,1,2,3) by (rule f32_update_double)
    with True Cons.IH [OF rest_ok] show ?thesis
      by (simp add: ieee32_def)
  qed
qed

lemma set_scores_double_exact:
  assumes "dbl z = z"
    and "\<forall>class_weights. map_get weights_table k = Some class_weights
           \<longrightarrow> doubling_exact A dbl v class_weights (replicate n z)"
  shows "set_scores A weights_table (replicate n z) [\<lparr>FeatureC.key = k, val = dbl v\<rparr>] 1
     = map_sum id (map dbl)
         (set_scores A weights_table (replicate n z) [\<lparr>FeatureC.key = k, val = v\<rparr>] 1)"
proof (cases "map_get weights_table k")
  case None
  then show ?thesis
    using assms(1) by (simp add: set_scores_def)
next
  case (Some class_weights)
  with assms(2) have "doubling_exact A dbl v class_weights (replicate n z)" by simp
  from add_class_weights_double [OF this, of 0] assms(1)
  have "add_class_weights A (dbl v) 0 class_weights (replicate n z)
      = map_sum id (map dbl) (add_class_weights A v 0 class_weights (replicate n z))"
    by simp
  then show ?thesis
    by (cases "add_class_weights A v 0 class_weights (replicate n z)")
       (simp_all add: set_scores_def Some)
qed

lemma f32_decode_0: "f32_decode 0 = Finite False 0 (- 149)"
  by (simp add: f32_decode_def)

lemma f32_decode_max: "f32_decode 0x7F7FFFFF = Finite False 16777215 104"
  by (simp add: f32_decode_def Let_def)

lemma f32_decode_half: "f32_decode 0x3F000000 = Finite False 8388608 (- 24)"
  by (simp add: f32_decode_def Let_def)

lemma f32_decode_inf: "f32_decode 0x7F800000 = Infinity False"
  by (simp add: f32_decode_def Let_def)

lemma f32_decode_half_max: "f32_decode 0x7EFFFFFF = Finite False 16777215 103"
  by (simp add: f32_decode_def Let_def)

lemma f32_mul_2_max: "f32_mul 0x40000000 0x7F7FFFFF = 0x7F800000"
proof -
  have "f32_mul 0x40000000 0x7F7FFFFF = f32_round False 16777215 (104 + 1)"
    by (rule f32_mul_two [OF f32_decode_max])
  then show ?thesis
    by (simp add: f32_round_normal f32_pack_def)
qed

lemma f32_mul_half_inf: "f32_mul 0x3F000000 0x7F800000 = 0x7F800000"
  by (simp add: f32_mul_def f32_decode_half f32_decode_inf f32_pack_def)

lemma f32_add_0_inf: "f32_add 0 0x7F800000 = 0x7F800000"
  by (simp add: f32_add_def f32_decode_0 f32_decode_inf f32_pack_def)

lemma f32_mul_half_max: "f32_mul 0x3F000000 0x7F7FFFFF = 0x7EFFFFFF"
proof -
  have "f32_mul 0x3F000000 0x7F7FFFFF = f32_round False (16777215 * 2 ^ 23) (- 24 + 104)"
    using f32_mul_Finite [OF f32_decode_half f32_decode_max] by simp
  also have "\<dots> = f32_round False 16777215 (- 24 + 104 + int 23)"
    by (rule f32_round_shift)
  also have "\<dots> = f32_round False 16777215 103" by simp
  also have "\<dots> = 0x7EFFFFFF"
    by (rule f32_round_decode [OF f32_decode_half_max])
  finally show ?thesis .
qed

lemma f32_add_0_half_max: "f32_add 0 0x7EFFFFFF = 0x7EFFFFFF"
proof -
  have "f32_add 0 0x7EFFFFFF = f32_round False (16777215 * 2 ^ nat (103 + 149)) (- 149)"
    by (rule f32_add_zero_left [OF f32_decode_half_max]) simp
  also have "\<dots> = f32_round False 16777215 (- 149 + int (nat (103 + 149)))"
    by (rule f32_round_shift)
  also have "\<dots> = f32_round False 16777215 103" by simp
  also have "\<dots> = 0x7EFFFFFF"
    by (rule f32_round_decode [OF f32_decode_half_max])
  finally show ?thesis .
qed

lemma f32_mul_2_half_max: "f32_mul 0x40000000 0x7EFFFFFF = 0x7F7FFFFF"
proof -
  have "f32_mul 0x40000000 0x7EFFFFFF = f32_round False 16777215 (103 + 1)"
    by (rule f32_mul_two [OF f32_decode_half_max])
  also have "\<dots> = f32_round False 16777215 104" by simp
  also have "\<dots> = 0x7F7FFFFF"
    by (rule f32_round_decode [OF f32_decode_max])
  finally show ?thesis .
qed

lemma set_scores_double_overflow:
  "set_scores ieee32 [(42, Some [\<lparr>key = 3, val = 0x3F000000\<rparr>, \<lparr>key = - 1, val = 0\<rparr>])]
     (replicate 10 0) [\<lparr>FeatureC.key = 42, val = f32_mul 0x40000000 0x7F7FFFFF\<rparr>] 1
   = Inr [0, 0, 0, 0x7F800000, 0, 0, 0, 0, 0, 0] \<and>
   map_sum id (map (f32_mul 0x40000000))
     (set_scores ieee32 [(42, Some [\<lparr>key = 3, val = 0x3F000000\<rparr>, \<lparr>key = - 1, val = 0\<rparr>])]
        (replicate 10 0) [\<lparr>FeatureC.key = 42, val = 0x7F7FFFFF\<rparr>] 1)
   = Inr [0, 0, 0, 0x7F7FFFFF, 0, 0, 0, 0, 0, 0]"
proof -
  let ?wt = "[(42 :: feat_t, Some [\<lparr>key = 3, val = 0x3F000000 :: weight_t\<rparr>,
                                    \<lparr>key = - 1, val = 0\<rparr>])]"
  have a: "set_scores ieee32 ?wt (replicate 10 0)
      [\<lparr>FeatureC.key = 42, val = f32_mul 0x40000000 0x7F7FFFFF\<rparr>] 1
      = Inr [0, 0, 0, 0x7F800000, 0, 0, 0, 0, 0, 0]"
    unfolding f32_mul_2_max
    by (simp add: set_scores_def map_get_def ieee32_def f32_mul_half_inf f32_add_0_inf list_eval)
  have b: "set_scores ieee32 ?wt (replicate 10 0) [\<lparr>FeatureC.key = 42, val = 0x7F7FFFFF\<rparr>] 1
      = Inr [0, 0, 0, 0x7EFFFFFF, 0, 0, 0, 0, 0, 0]"
    by (simp add: set_scores_def map_get_def ieee32_def f32_mul_half_max f32_add_0_half_max
        list_eval)
  show ?thesis
    unfolding a b by (simp add: f32_mul_2_0 f32_mul_2_half_max)
qed

lemma f32_doubling_safe_distinct:
  assumes "distinct (map key (live class_weights))"
    and "\<forall>e \<in> set (live class_weights). nat (sint (key e)) < length scores \<longrightarrow>
           f32_doubles v \<and> f32_product_safe (val e) v \<and> f32_doubles (f32_mul (val e) v) \<and>
           f32_doubles (scores ! nat (sint (key e)))"
  shows "f32_doubling_safe v class_weights scores"
  using assms
proof (induction class_weights arbitrary: scores)
  case Nil
  show ?case by simp
next
  case (Cons e es)
  let ?c = "nat (sint (key e))"
  show ?case
  proof (cases "0 \<le> sint (key e) \<and> ?c < length scores")
    case False
    then show ?thesis by auto
  next
    case True
    then have l: "live (e # es) = e # live es"
      by (simp add: live_def)
    let ?s = "scores[?c := f32_add (scores ! ?c) (f32_mul (val e) v)]"
    have here: "f32_doubles v" "f32_product_safe (val e) v" "f32_doubles (f32_mul (val e) v)"
      "f32_doubles (scores ! ?c)"
      using Cons.prems(2) True by (simp_all add: l)
    have "f32_doubling_safe v es ?s"
    proof (rule Cons.IH)
      show "distinct (map key (live es))"
        using Cons.prems(1) by (simp add: l)
      show "\<forall>e' \<in> set (live es). nat (sint (key e')) < length ?s \<longrightarrow>
           f32_doubles v \<and> f32_product_safe (val e') v \<and> f32_doubles (f32_mul (val e') v) \<and>
           f32_doubles (?s ! nat (sint (key e')))"
      proof (intro ballI impI)
        fix e' assume e': "e' \<in> set (live es)" and "nat (sint (key e')) < length ?s"
        then have len: "nat (sint (key e')) < length scores" by simp
        from e' have nonneg: "0 \<le> sint (key e')"
          by (auto simp: live_def dest: set_takeWhileD)
        from e' Cons.prems(1) have "key e' \<noteq> key e"
          by (force simp: l image_iff)
        then have "sint (key e') \<noteq> sint (key e)"
          by (auto dest: signed_word_eqI)
        with nonneg True have "nat (sint (key e')) \<noteq> ?c" by (simp add: nat_eq_iff)
        then have "?s ! nat (sint (key e')) = scores ! nat (sint (key e'))" by simp
        moreover from Cons.prems(2) e' len
        have "f32_doubles v \<and> f32_product_safe (val e') v \<and> f32_doubles (f32_mul (val e') v) \<and>
           f32_doubles (scores ! nat (sint (key e')))"
          by (simp add: l)
        ultimately show "f32_doubles v \<and> f32_product_safe (val e') v \<and>
           f32_doubles (f32_mul (val e') v) \<and> f32_doubles (?s ! nat (sint (key e')))"
          by simp
      qed
    qed
    with True here show ?thesis by simp
  qed
qed

lemma f32_doubles_0: "f32_doubles 0"
  by (simp add: f32_doubles_def f32_decode_0)

lemma f32_doubling_safe_zeros:
  assumes "distinct (map key (live class_weights))"
    and "\<forall>e \<in> set (live class_weights). nat (sint (key e)) < n \<longrightarrow>
           f32_doubles v \<and> f32_product_safe (val e) v \<and> f32_doubles (f32_mul (val e) v)"
  shows "f32_doubling_safe v class_weights (replicate n 0)"
  using assms by (intro f32_doubling_safe_distinct) (simp_all add: f32_doubles_0)

text \<open>
  C4, as amended. The weights, the values and the scores are floats, "2v" and "double"
  are the float products by 2.0, and the buffer holds +0.0. The claim as stated fails:
  with the weight 1.5 at class 3 and \<open>v = 2^-149\<close>, the product \<open>1.5 * v\<close> is rounded to
  \<open>2 * 2^-149\<close> (a tie, to the even significand), and its double is \<open>4 * 2^-149\<close>; but
  \<open>2 * v\<close> is exact and \<open>1.5 * (2 * v)\<close> is \<open>3 * 2^-149\<close>, exact too. That is the
  counterexample below. Overflow breaks the claim as well: with the weight 0.5 and \<open>v\<close>
  the largest float, \<open>2 * v\<close> is infinite and so is the score, but the double of
  \<open>0.5 * v\<close> is the largest float (\<open>set_scores_double_overflow\<close>).

  What holds: scoring the single feature \<open>(k, 2 * v)\<close> into a buffer of zeros gives at
  every class index the double of the score that scoring \<open>(k, v)\<close> gives (and fails
  when that fails), provided that in the run for \<open>v\<close> nothing overflows when it is
  doubled and no product underflows: at each update \<^verbatim>\<open>scores[c] += w * v\<close> the value
  \<open>v\<close>, the score read and the float product \<open>w * v\<close> are finite and below \<open>2^127\<close>
  in magnitude, \<open>w\<close> is finite, and the exact product of \<open>w\<close> and \<open>v\<close> is zero, a
  multiple of \<open>2^-149\<close>, or at least \<open>2^-126\<close> in magnitude. \<open>f32_doubling_safe\<close>
  computes this condition from \<open>v\<close>, the vector of \<open>k\<close> and the buffer; for a vector
  whose class ids are distinct every score read is the zero of the buffer, and the
  condition is one on \<open>v\<close> and each weight alone (\<open>f32_doubling_safe_zeros\<close>). The
  witness is the first scenario of the spec.
\<close>

theorem set_scores_double:
  assumes "\<forall>class_weights. map_get weights_table k = Some class_weights
           \<longrightarrow> f32_doubling_safe v class_weights (replicate n 0)"
  shows "set_scores ieee32 weights_table (replicate n 0)
       [\<lparr>FeatureC.key = k, val = f32_mul 0x40000000 v\<rparr>] 1
     = map_sum id (map (f32_mul 0x40000000))
         (set_scores ieee32 weights_table (replicate n 0) [\<lparr>FeatureC.key = k, val = v\<rparr>] 1)"
proof (rule set_scores_double_exact)
  show "f32_mul 0x40000000 0 = 0" by (rule f32_mul_2_0)
  show "\<forall>class_weights. map_get weights_table k = Some class_weights
      \<longrightarrow> doubling_exact ieee32 (f32_mul 0x40000000) v class_weights (replicate n 0)"
    using assms by (auto intro: doubling_exact_ieee32)
qed

theorem set_scores_double_witness:
  "set_scores ieee32
     [(42, Some [\<lparr>key = 3, val = 0x3FC00000\<rparr>, \<lparr>key = 7, val = 0xC0000000\<rparr>,
                 \<lparr>key = - 1, val = 0\<rparr>])]
     (replicate 10 0) [\<lparr>FeatureC.key = 42, val = f32_mul 0x40000000 0x40000000\<rparr>] 1
   = map_sum id (map (f32_mul 0x40000000))
       (set_scores ieee32
          [(42, Some [\<lparr>key = 3, val = 0x3FC00000\<rparr>, \<lparr>key = 7, val = 0xC0000000\<rparr>,
                      \<lparr>key = - 1, val = 0\<rparr>])]
          (replicate 10 0) [\<lparr>FeatureC.key = 42, val = 0x40000000\<rparr>] 1) \<and>
   f32_mul 0x40000000 0x40000000 = 0x40800000 \<and>
   set_scores ieee32
     [(42, Some [\<lparr>key = 3, val = 0x3FC00000\<rparr>, \<lparr>key = 7, val = 0xC0000000\<rparr>,
                 \<lparr>key = - 1, val = 0\<rparr>])]
     (replicate 10 0) [\<lparr>FeatureC.key = 42, val = 0x40000000\<rparr>] 1
   = Inr [0, 0, 0, 0x40400000, 0, 0, 0, 0xC0800000, 0, 0] \<and>
   set_scores ieee32
     [(42, Some [\<lparr>key = 3, val = 0x3FC00000\<rparr>, \<lparr>key = 7, val = 0xC0000000\<rparr>,
                 \<lparr>key = - 1, val = 0\<rparr>])]
     (replicate 10 0) [\<lparr>FeatureC.key = 42, val = 0x40800000\<rparr>] 1
   = Inr [0, 0, 0, 0x40C00000, 0, 0, 0, 0xC1000000, 0, 0]"
proof -
  let ?cw = "[\<lparr>key = 3, val = 0x3FC00000 :: weight_t\<rparr>, \<lparr>key = 7, val = 0xC0000000\<rparr>,
              \<lparr>key = - 1, val = 0\<rparr>]"
  have safe: "f32_doubling_safe 0x40000000 ?cw (replicate 10 0)"
    by (simp add: list_eval f32_doubles_def f32_product_safe_def f32_no_underflow_def
        f32_decode_0 f32_decode_2 f32_decode_1_5 f32_decode_m2 f32_decode_3 f32_decode_m4
        f32_mul_1_5_2 f32_mul_m2_2 f32_add_0_3 f32_add_0_m4)
  have hyp: "\<forall>class_weights. map_get [(42, Some ?cw)] 42 = Some class_weights
      \<longrightarrow> f32_doubling_safe 0x40000000 class_weights (replicate 10 0)"
    using safe by (simp add: map_get_def)
  have run: "set_scores ieee32 [(42, Some ?cw)] (replicate 10 0)
      [\<lparr>FeatureC.key = 42, val = 0x40000000\<rparr>] 1
      = Inr [0, 0, 0, 0x40400000, 0, 0, 0, 0xC0800000, 0, 0]"
    by (simp add: set_scores_def map_get_def ieee32_def f32_mul_1_5_2 f32_mul_m2_2
        f32_add_0_3 f32_add_0_m4 list_eval)
  have run2: "set_scores ieee32 [(42, Some ?cw)] (replicate 10 0)
      [\<lparr>FeatureC.key = 42, val = 0x40800000\<rparr>] 1
      = Inr [0, 0, 0, 0x40C00000, 0, 0, 0, 0xC1000000, 0, 0]"
    by (simp add: set_scores_def map_get_def ieee32_def f32_mul_1_5_4 f32_mul_m2_4
        f32_add_0_6 f32_add_0_m8 list_eval)
  from set_scores_double [of "[(42, Some ?cw)]" 42 "0x40000000" 10, OF hyp] f32_mul_2_2 run run2
  show ?thesis by simp
qed

theorem set_scores_double_counterexample:
  "set_scores ieee32 [(42, Some [\<lparr>key = 3, val = 0x3FC00000\<rparr>, \<lparr>key = - 1, val = 0\<rparr>])]
     (replicate 10 0) [\<lparr>FeatureC.key = 42, val = f32_mul 0x40000000 0x00000001\<rparr>] 1
   \<noteq> map_sum id (map (f32_mul 0x40000000))
       (set_scores ieee32 [(42, Some [\<lparr>key = 3, val = 0x3FC00000\<rparr>, \<lparr>key = - 1, val = 0\<rparr>])]
          (replicate 10 0) [\<lparr>FeatureC.key = 42, val = 0x00000001\<rparr>] 1)"
proof -
  let ?wt = "[(42 :: feat_t, Some [\<lparr>key = 3, val = 0x3FC00000 :: weight_t\<rparr>,
                                    \<lparr>key = - 1, val = 0\<rparr>])]"
  have a: "set_scores ieee32 ?wt (replicate 10 0)
      [\<lparr>FeatureC.key = 42, val = f32_mul 0x40000000 0x00000001\<rparr>] 1
      = Inr [0, 0, 0, 0x00000003, 0, 0, 0, 0, 0, 0]"
    by (simp add: set_scores_def map_get_def ieee32_def f32_mul_2_u1 f32_mul_1_5_u2
        f32_add_0_u3 list_eval)
  have b: "set_scores ieee32 ?wt (replicate 10 0) [\<lparr>FeatureC.key = 42, val = 0x00000001\<rparr>] 1
      = Inr [0, 0, 0, 0x00000002, 0, 0, 0, 0, 0, 0]"
    by (simp add: set_scores_def map_get_def ieee32_def f32_mul_1_5_u1 f32_add_0_u2 list_eval)
  show ?thesis
    unfolding a b by (simp add: f32_mul_2_0 f32_mul_2_u2)
qed

subsection \<open>MultiLayerPerceptron.backprop\<close>

text \<open>
  C8. When \<open>backprop\<close> returns, its loop over the layers, which is where the gradients
  are accumulated, ran from the example in which only \<^verbatim>\<open>eg.deltas[depth]\<close> has
  changed: its first \<^verbatim>\<open>nr_class\<close> entries are \<open>scores - target\<close>, element by
  element, and the gradients are those of the call's start.
\<close>

theorem backprop_terminal_delta:
  assumes "backprop A d_activate layers depth eg = Inr eg'"
  shows "\<exists>d. length d = length (eg_deltas eg ! depth) \<and>
     (\<forall>i < nat (eg_nr_class eg). d ! i = sub A (eg_scores eg ! i) (eg_target eg ! i)) \<and>
     backprop_layers A d_activate layers depth (eg\<lparr>eg_deltas := (eg_deltas eg)[depth := d]\<rparr>)
       = Inr eg'"
proof -
  let ?n = "nat (eg_nr_class eg)"
  let ?d1 = "take ?n (eg_scores eg) @ drop ?n (eg_deltas eg ! depth)"
  let ?d2 = "map (\<lambda>(x, y). sub A x y) (zip ?d1 (eg_target eg))"
  from assms have n: "0 \<le> eg_nr_class eg" "?n \<le> length (eg_scores eg)"
    "?n \<le> length (eg_deltas eg ! depth)"
    and cp: "memcpy (eg_deltas eg ! depth) (eg_scores eg) (eg_nr_class eg) = Inr ?d1"
    by (auto simp: backprop_def memcpy_def split: if_splits)
  have len1: "length ?d1 = length (eg_deltas eg ! depth)"
    using n by simp
  from assms cp have t: "length ?d1 \<le> length (eg_target eg)"
    and run: "backprop_layers A d_activate layers depth
        (eg\<lparr>eg_deltas := (eg_deltas eg)[depth := ?d2]\<rparr>) = Inr eg'"
    by (auto simp: backprop_def isubC_def split: if_splits)
  have len2: "length ?d2 = length (eg_deltas eg ! depth)"
    using t len1 by simp
  have "?d2 ! i = sub A (eg_scores eg ! i) (eg_target eg ! i)" if "i < ?n" for i
  proof -
    have "i < length ?d1" "i < length (eg_target eg)"
      using that n t len1 by simp_all
    then have "?d2 ! i = sub A (?d1 ! i) (eg_target eg ! i)"
      by simp
    also have "?d1 ! i = eg_scores eg ! i"
      using that n by (simp add: nth_append)
    finally show ?thesis .
  qed
  with len2 run show ?thesis by blast
qed

theorem backprop_terminal_delta_witness:
  "backprop \<lparr>mul = (*), add = (+), sub = (-), one = 1\<rparr> (\<lambda>delta layer sig. delta) [(), ()] 1
     \<lparr>eg_nr_class = 2, eg_scores = [5, 7 :: int], eg_target = [1, 0],
      eg_signal = [[1], [2]], eg_deltas = [[0], [0, 0]],
      eg_grad = [\<lparr>grad_W = [[0]], grad_b = [0]\<rparr>, \<lparr>grad_W = [[0], [0]], grad_b = [0, 0]\<rparr>]\<rparr>
   = Inr \<lparr>eg_nr_class = 2, eg_scores = [5, 7], eg_target = [1, 0],
          eg_signal = [[1], [2]], eg_deltas = [[0], [4, 7]],
          eg_grad = [\<lparr>grad_W = [[0]], grad_b = [0]\<rparr>,
                     \<lparr>grad_W = [[8], [14]], grad_b = [4, 7]\<rparr>]\<rparr> \<and>
   (\<exists>d. length d = 2 \<and> d ! 0 = 5 - 1 \<and> d ! 1 = 7 - (0 :: int) \<and>
     backprop_layers \<lparr>mul = (*), add = (+), sub = (-), one = 1\<rparr> (\<lambda>delta layer sig. delta)
       [(), ()] 1
       \<lparr>eg_nr_class = 2, eg_scores = [5, 7 :: int], eg_target = [1, 0],
        eg_signal = [[1], [2]], eg_deltas = [[0], d],
        eg_grad = [\<lparr>grad_W = [[0]], grad_b = [0]\<rparr>, \<lparr>grad_W = [[0], [0]], grad_b = [0, 0]\<rparr>]\<rparr>
     = Inr \<lparr>eg_nr_class = 2, eg_scores = [5, 7], eg_target = [1, 0],
            eg_signal = [[1], [2]], eg_deltas = [[0], [4, 7]],
            eg_grad = [\<lparr>grad_W = [[0]], grad_b = [0]\<rparr>,
                       \<lparr>grad_W = [[8], [14]], grad_b = [4, 7]\<rparr>]\<rparr>)"
proof -
  let ?A = "\<lparr>mul = (*), add = (+), sub = (-), one = 1 :: int\<rparr>"
  let ?eg = "\<lparr>eg_nr_class = 2, eg_scores = [5, 7 :: int], eg_target = [1, 0],
      eg_signal = [[1], [2]], eg_deltas = [[0], [0, 0]],
      eg_grad = [\<lparr>grad_W = [[0]], grad_b = [0]\<rparr>, \<lparr>grad_W = [[0], [0]], grad_b = [0, 0]\<rparr>]\<rparr>"
  let ?eg' = "\<lparr>eg_nr_class = 2, eg_scores = [5, 7 :: int], eg_target = [1, 0],
          eg_signal = [[1], [2]], eg_deltas = [[0], [4, 7]],
          eg_grad = [\<lparr>grad_W = [[0]], grad_b = [0]\<rparr>,
                     \<lparr>grad_W = [[8], [14]], grad_b = [4, 7]\<rparr>]\<rparr>"
  have run: "backprop ?A (\<lambda>delta layer sig. delta) [(), ()] 1 ?eg = Inr ?eg'"
    by (simp add: backprop_def memcpy_def isubC_def iaddC_def iadd_outerC_def
        backprop_layers.simps [of _ _ _ "Suc 0"] backprop_layers.simps [of _ _ _ 0])
  from backprop_terminal_delta [OF run] obtain d where
    "length d = length (eg_deltas ?eg ! 1)"
    and "\<forall>i < nat (eg_nr_class ?eg). d ! i = sub ?A (eg_scores ?eg ! i) (eg_target ?eg ! i)"
    and "backprop_layers ?A (\<lambda>delta layer sig. delta) [(), ()] 1
       (?eg\<lparr>eg_deltas := (eg_deltas ?eg)[1 := d]\<rparr>) = Inr ?eg'"
    by blast
  then have "length d = 2 \<and> d ! 0 = 5 - 1 \<and> d ! 1 = 7 - (0 :: int) \<and>
     backprop_layers ?A (\<lambda>delta layer sig. delta) [(), ()] 1
       \<lparr>eg_nr_class = 2, eg_scores = [5, 7 :: int], eg_target = [1, 0],
        eg_signal = [[1], [2]], eg_deltas = [[0], d],
        eg_grad = [\<lparr>grad_W = [[0]], grad_b = [0]\<rparr>, \<lparr>grad_W = [[0], [0]], grad_b = [0, 0]\<rparr>]\<rparr>
     = Inr ?eg'"
    by (simp add: less_2_cases_iff)
  with run show ?thesis by blast
qed

end
